theory Spec2Isabelle
  imports Main "HOL-Library.Word"
begin

unbundle bit_operations_syntax

section \<open>The Xilinx AXI DMA driver (drivers/dma/dma\_xilinx\_axi\_dma.c)\<close>

text \<open>
  A shallow embedding of the scatter-gather DMA driver. The C functions become HOL
  functions over an explicit device state; every function keeps the name it has in the
  source. Memory-mapped register writes, completion-callback invocations, descriptor
  reclamations and sleeps are appended to a trace in program order; register reads take
  their values from the hardware (a read oracle indexed by the number of reads made so
  far). Cache maintenance and memory barriers have no effect on the (coherent) memory of
  the model and are left out.
\<close>

subsection \<open>Machine types and constants\<close>

type_synonym u32 = "32 word"

text \<open>\<open>uintptr_t\<close>, \<open>dma_addr_t\<close> and \<open>mm_reg_t\<close>: 64 bits wide; on a 32-bit
  platform the upper half is zero.\<close>

type_synonym addr = "64 word"

text \<open>Error numbers of \<open>errno.h\<close>; the functions return them negated.\<close>

definition EIO :: int where "EIO = 5"
definition EFAULT :: int where "EFAULT = 14"
definition EBUSY :: int where "EBUSY = 16"
definition EINVAL :: int where "EINVAL = 22"
definition ENOTSUP :: int where "ENOTSUP = 134"

definition DMA_STATUS_COMPLETE :: int where "DMA_STATUS_COMPLETE = 0"

definition UINT32_MAX :: nat where "UINT32_MAX = 4294967295"

text \<open>Masks for the control and status fields of a descriptor.\<close>

definition XILINX_AXI_DMA_SG_DESCRIPTOR_CTRL_SOF_MASK :: u32 where
  "XILINX_AXI_DMA_SG_DESCRIPTOR_CTRL_SOF_MASK = 0x08000000"
definition XILINX_AXI_DMA_SG_DESCRIPTOR_CTRL_EOF_MASK :: u32 where
  "XILINX_AXI_DMA_SG_DESCRIPTOR_CTRL_EOF_MASK = 0x04000000"
definition XILINX_AXI_DMA_SG_DESCRIPTOR_CTRL_LENGTH_MASK :: u32 where
  "XILINX_AXI_DMA_SG_DESCRIPTOR_CTRL_LENGTH_MASK = 0x03FFFFFF"
definition XILINX_AXI_DMA_SG_DESCRIPTOR_STATUS_LENGTH_MASK :: u32 where
  "XILINX_AXI_DMA_SG_DESCRIPTOR_STATUS_LENGTH_MASK = 0x03FFFFFF"
definition XILINX_AXI_DMA_SG_DESCRIPTOR_STATUS_COMPLETE_MASK :: u32 where
  "XILINX_AXI_DMA_SG_DESCRIPTOR_STATUS_COMPLETE_MASK = 0x80000000"
definition XILINX_AXI_DMA_SG_DESCRIPTOR_STATUS_DEC_ERR_MASK :: u32 where
  "XILINX_AXI_DMA_SG_DESCRIPTOR_STATUS_DEC_ERR_MASK = 0x40000000"
definition XILINX_AXI_DMA_SG_DESCRIPTOR_STATUS_SLV_ERR_MASK :: u32 where
  "XILINX_AXI_DMA_SG_DESCRIPTOR_STATUS_SLV_ERR_MASK = 0x20000000"
definition XILINX_AXI_DMA_SG_DESCRIPTOR_STATUS_INT_ERR_MASK :: u32 where
  "XILINX_AXI_DMA_SG_DESCRIPTOR_STATUS_INT_ERR_MASK = 0x10000000"
definition XILINX_AXI_DMA_SG_DESCRIPTOR_STATUS_TRANSFERRED_MASK :: u32 where
  "XILINX_AXI_DMA_SG_DESCRIPTOR_STATUS_TRANSFERRED_MASK = 0x03FFFFFF"

definition XILINX_AXI_DMA_SG_DESCRIPTOR_APP0_CHECKSUM_OFFLOAD_FULL :: u32 where
  "XILINX_AXI_DMA_SG_DESCRIPTOR_APP0_CHECKSUM_OFFLOAD_FULL = 0x00000002"
definition XILINX_AXI_DMA_SG_DESCRIPTOR_APP0_CHECKSUM_OFFLOAD_NONE :: u32 where
  "XILINX_AXI_DMA_SG_DESCRIPTOR_APP0_CHECKSUM_OFFLOAD_NONE = 0x00000000"
definition XILINX_AXI_DMA_SG_DESCRIPTOR_APP2_FCS_ERR_MASK :: u32 where
  "XILINX_AXI_DMA_SG_DESCRIPTOR_APP2_FCS_ERR_MASK = 0x00000100"
definition XILINX_AXI_DMA_SG_DESCRIPTOR_APP2_IP_ERR_MASK :: u32 where
  "XILINX_AXI_DMA_SG_DESCRIPTOR_APP2_IP_ERR_MASK = 0x00000028"
definition XILINX_AXI_DMA_SG_DESCRIPTOR_APP2_UDP_ERR_MASK :: u32 where
  "XILINX_AXI_DMA_SG_DESCRIPTOR_APP2_UDP_ERR_MASK = 0x00000030"
definition XILINX_AXI_DMA_SG_DESCRIPTOR_APP2_TCP_ERR_MASK :: u32 where
  "XILINX_AXI_DMA_SG_DESCRIPTOR_APP2_TCP_ERR_MASK = 0x00000038"

text \<open>Masks for the DMACR and DMASR registers.\<close>

definition XILINX_AXI_DMA_REGS_DMACR_IRQTHRESH_SHIFT_BITS :: nat where
  "XILINX_AXI_DMA_REGS_DMACR_IRQTHRESH_SHIFT_BITS = 16"
definition XILINX_AXI_DMA_REGS_DMACR_IRQDELAY_SHIFT_BITS :: nat where
  "XILINX_AXI_DMA_REGS_DMACR_IRQDELAY_SHIFT_BITS = 24"
definition XILINX_AXI_DMA_REGS_DMACR_ERR_IRQEN :: u32 where
  "XILINX_AXI_DMA_REGS_DMACR_ERR_IRQEN = 0x00004000"
definition XILINX_AXI_DMA_REGS_DMACR_DLY_IRQEN :: u32 where
  "XILINX_AXI_DMA_REGS_DMACR_DLY_IRQEN = 0x00002000"
definition XILINX_AXI_DMA_REGS_DMACR_IOC_IRQEN :: u32 where
  "XILINX_AXI_DMA_REGS_DMACR_IOC_IRQEN = 0x00001000"
definition XILINX_AXI_DMA_REGS_DMACR_CYC_BD_EN :: u32 where
  "XILINX_AXI_DMA_REGS_DMACR_CYC_BD_EN = 0x00000010"
definition XILINX_AXI_DMA_REGS_DMACR_KEYHOLE :: u32 where
  "XILINX_AXI_DMA_REGS_DMACR_KEYHOLE = 0x00000008"
definition XILINX_AXI_DMA_REGS_DMACR_RESET :: u32 where
  "XILINX_AXI_DMA_REGS_DMACR_RESET = 0x00000004"
definition XILINX_AXI_DMA_REGS_DMACR_RS :: u32 where
  "XILINX_AXI_DMA_REGS_DMACR_RS = 0x00000001"

definition XILINX_AXI_DMA_REGS_DMASR_ERR_IRQ :: u32 where
  "XILINX_AXI_DMA_REGS_DMASR_ERR_IRQ = 0x00004000"
definition XILINX_AXI_DMA_REGS_DMASR_DLY_IRQ :: u32 where
  "XILINX_AXI_DMA_REGS_DMASR_DLY_IRQ = 0x00002000"
definition XILINX_AXI_DMA_REGS_DMASR_IOC_IRQ :: u32 where
  "XILINX_AXI_DMA_REGS_DMASR_IOC_IRQ = 0x00001000"
definition XILINX_AXI_DMA_REGS_DMASR_IDLE :: u32 where
  "XILINX_AXI_DMA_REGS_DMASR_IDLE = 0x00000002"
definition XILINX_AXI_DMA_REGS_DMASR_HALTED :: u32 where
  "XILINX_AXI_DMA_REGS_DMASR_HALTED = 0x00000001"

text \<open>\<open>enum AxiDmaDirectionRegister\<close>: the byte offset of each register.\<close>

datatype AxiDmaDirectionRegister =
    XILINX_AXI_DMA_REG_DMACR
  | XILINX_AXI_DMA_REG_DMASR
  | XILINX_AXI_DMA_REG_CURDESC
  | XILINX_AXI_DMA_REG_CURDESC_MSB
  | XILINX_AXI_DMA_REG_TAILDESC
  | XILINX_AXI_DMA_REG_TAILDESC_MSB

fun reg_offset :: "AxiDmaDirectionRegister \<Rightarrow> addr" where
  "reg_offset XILINX_AXI_DMA_REG_DMACR = 0x00"
| "reg_offset XILINX_AXI_DMA_REG_DMASR = 0x04"
| "reg_offset XILINX_AXI_DMA_REG_CURDESC = 0x08"
| "reg_offset XILINX_AXI_DMA_REG_CURDESC_MSB = 0x0C"
| "reg_offset XILINX_AXI_DMA_REG_TAILDESC = 0x10"
| "reg_offset XILINX_AXI_DMA_REG_TAILDESC_MSB = 0x14"

definition XILINX_AXI_DMA_MM2S_REG_OFFSET :: addr where
  "XILINX_AXI_DMA_MM2S_REG_OFFSET = 0x00"
definition XILINX_AXI_DMA_S2MM_REG_OFFSET :: addr where
  "XILINX_AXI_DMA_S2MM_REG_OFFSET = 0x30"

text \<open>
  Modelled from the spec: the header \<open>dma_xilinx_axi_dma.h\<close> is not part of the
  sources at hand. The device has exactly two channels; the source's own comment in
  \<open>dma_xilinx_axi_dma_lock_irq\<close> says "TX is 0, RX is 1". The two selectors of the
  checksum-offload mode are distinct numbers; nothing below depends on which.
\<close>

definition XILINX_AXI_DMA_NUM_CHANNELS :: nat where "XILINX_AXI_DMA_NUM_CHANNELS = 2"
definition XILINX_AXI_DMA_TX_CHANNEL_NUM :: nat where "XILINX_AXI_DMA_TX_CHANNEL_NUM = 0"
definition XILINX_AXI_DMA_RX_CHANNEL_NUM :: nat where "XILINX_AXI_DMA_RX_CHANNEL_NUM = 1"
definition XILINX_AXI_DMA_LINKED_CHANNEL_NO_CSUM_OFFLOAD :: nat where
  "XILINX_AXI_DMA_LINKED_CHANNEL_NO_CSUM_OFFLOAD = 0"
definition XILINX_AXI_DMA_LINKED_CHANNEL_FULL_CSUM_OFFLOAD :: nat where
  "XILINX_AXI_DMA_LINKED_CHANNEL_FULL_CSUM_OFFLOAD = 1"

text \<open>
  Modelled from the spec: \<open>enum dma_channel_direction\<close> and the address-adjustment
  constants come from Zephyr's \<open>drivers/dma.h\<close>, which is not part of the sources at
  hand. Statically allocated channel data starts out as \<open>MEMORY_TO_MEMORY\<close> (the
  enumerator with value 0).
\<close>

datatype dma_channel_direction =
    MEMORY_TO_MEMORY
  | MEMORY_TO_PERIPHERAL
  | PERIPHERAL_TO_MEMORY
  | PERIPHERAL_TO_PERIPHERAL
  | HOST_TO_MEMORY
  | MEMORY_TO_HOST

definition DMA_ADDR_ADJ_INCREMENT :: nat where "DMA_ADDR_ADJ_INCREMENT = 0"
definition DMA_ADDR_ADJ_DECREMENT :: nat where "DMA_ADDR_ADJ_DECREMENT = 1"
definition DMA_ADDR_ADJ_NO_CHANGE :: nat where "DMA_ADDR_ADJ_NO_CHANGE = 2"

subsection \<open>Data\<close>

text \<open>\<open>struct dma_xilinx_axi_dma_sg_descriptor\<close>: 13 words, padded to 64 bytes.\<close>

record dma_xilinx_axi_dma_sg_descriptor =
  nxtdesc :: u32
  nxtdesc_msb :: u32
  buffer_address :: u32
  buffer_address_msb :: u32
  reserved1 :: u32
  reserved2 :: u32
  control :: u32
  status :: u32
  app0 :: u32
  app1 :: u32
  app2 :: u32
  app3 :: u32
  app4 :: u32

definition sizeof_sg_descriptor :: addr where "sizeof_sg_descriptor = 64"

text \<open>
  \<open>struct dma_xilinx_axi_dma_channel\<close>. The C field \<open>descriptors\<close> is a pointer to
  the channel's own static array (\<open>descriptors_tx\<close> or \<open>descriptors_rx\<close>); no other
  pointer reaches that array, so the model keeps the pointer value in
  \<open>descriptors_ptr\<close> and the array's contents in \<open>descriptors\<close>. A function pointer is
  an optional identifier (\<open>None\<close> is \<open>NULL\<close>).
\<close>

record dma_xilinx_axi_dma_channel =
  descriptors_ptr :: addr
  descriptors :: "dma_xilinx_axi_dma_sg_descriptor list"
  num_descriptors :: nat
  populated_desc_index :: nat
  completion_desc_index :: nat
  channel_regs :: addr
  irq :: u32
  direction :: dma_channel_direction
  completion_callback :: "nat option"
  completion_callback_user_data :: nat
  last_rx_size :: u32
  sg_desc_app0 :: u32
  check_csum_in_isr :: bool

text \<open>What the driver does to the outside world, in program order.\<close>

datatype event =
    EV_REG_WRITE addr u32
  | EV_CALLBACK nat nat nat int
  | EV_DESC_CLEARED nat nat
  | EV_MSLEEP nat
  | EV_IRQ_CONNECT u32 nat

text \<open>
  \<open>struct dma_xilinx_axi_dma_data\<close> together with the parts of the machine the driver
  acts on: the interrupt controller (\<open>irqs_enabled\<close>, the lines currently enabled), the
  CPU's global interrupt mask (\<open>cpu_irqs_unlocked\<close>), the hardware's answers to register
  reads (\<open>hw_read n a\<close> is what the \<open>n\<close>-th read returns when it reads address \<open>a\<close>),
  and the trace. \<open>stray_irq n\<close> is the word that a read of \<open>channels[n].irq\<close> finds
  when \<open>n\<close> is outside the array of channels.
\<close>

record dma_xilinx_axi_dma_data =
  channels :: "dma_xilinx_axi_dma_channel list"
  descriptors_tx_addr :: addr
  descriptors_rx_addr :: addr
  irqs_enabled :: "u32 set"
  cpu_irqs_unlocked :: bool
  stray_irq :: "nat \<Rightarrow> u32"
  hw_read :: "nat \<Rightarrow> addr \<Rightarrow> u32"
  reads_done :: nat
  trace :: "event list"

text \<open>\<open>struct dma_xilinx_axi_dma_config\<close>; \<open>irq_configure\<close> is the function the
  instantiation macro generates, determined by the two interrupt numbers of the
  instance.\<close>

record dma_xilinx_axi_dma_config =
  reg :: addr
  cfg_channels :: nat
  irqn_tx :: u32
  irqn_rx :: u32

text \<open>The build-time configuration (Kconfig).\<close>

datatype lock_mode =
    CONFIG_DMA_XILINX_AXI_DMA_LOCK_ALL_IRQS
  | CONFIG_DMA_XILINX_AXI_DMA_LOCK_DMA_IRQS
  | CONFIG_DMA_XILINX_AXI_DMA_LOCK_CHANNEL_IRQ

record kconfig =
  lock_irqs :: lock_mode
  CONFIG_DMA_XILINX_AXI_DMA_DISABLE_CACHE_WHEN_ACCESSING_SG_DESCRIPTORS :: bool
  sys_cache_data_line_size :: addr
  CONFIG_DMA_64BIT :: bool
  CONFIG_DMA_XILINX_AXI_DMA_INTERRUPT_THRESHOLD :: u32
  CONFIG_DMA_XILINX_AXI_DMA_INTERRUPT_TIMEOUT :: u32
  CONFIG_DMA_XILINX_AXI_DMA_SG_DESCRIPTOR_NUM_TX :: nat
  CONFIG_DMA_XILINX_AXI_DMA_SG_DESCRIPTOR_NUM_RX :: nat

text \<open>\<open>struct dma_block_config\<close> and \<open>struct dma_config\<close>, the fields the driver
  reads. The chain of blocks linked through \<open>next_block\<close> is a list starting at
  \<open>head_block\<close>.\<close>

record dma_block_config =
  source_address :: addr
  dest_address :: addr
  block_size :: nat
  source_addr_adj :: nat
  dest_addr_adj :: nat

record dma_config =
  head_block :: dma_block_config
  next_blocks :: "dma_block_config list"
  channel_direction :: dma_channel_direction
  linked_channel :: nat
  dma_callback :: "nat option"
  user_data :: nat

record dma_status =
  busy :: bool
  dir :: dma_channel_direction

subsection \<open>Interrupt exclusion\<close>

text \<open>The kernel primitives. \<open>irq_lock\<close> masks all interrupts and returns the previous
  mask state as the key; \<open>irq_unlock\<close> restores the state the key records.\<close>

definition irq_is_enabled :: "dma_xilinx_axi_dma_data \<Rightarrow> u32 \<Rightarrow> bool" where
  "irq_is_enabled s n = (n \<in> irqs_enabled s)"

definition irq_disable :: "dma_xilinx_axi_dma_data \<Rightarrow> u32 \<Rightarrow> dma_xilinx_axi_dma_data" where
  "irq_disable s n = s\<lparr>irqs_enabled := irqs_enabled s - {n}\<rparr>"

definition irq_enable :: "dma_xilinx_axi_dma_data \<Rightarrow> u32 \<Rightarrow> dma_xilinx_axi_dma_data" where
  "irq_enable s n = s\<lparr>irqs_enabled := insert n (irqs_enabled s)\<rparr>"

definition irq_lock :: "dma_xilinx_axi_dma_data \<Rightarrow> int \<times> dma_xilinx_axi_dma_data" where
  "irq_lock s = ((if cpu_irqs_unlocked s then 1 else 0), s\<lparr>cpu_irqs_unlocked := False\<rparr>)"

definition irq_unlock :: "dma_xilinx_axi_dma_data \<Rightarrow> int \<Rightarrow> dma_xilinx_axi_dma_data" where
  "irq_unlock s key = s\<lparr>cpu_irqs_unlocked := (key \<noteq> 0)\<rparr>"

definition channel_irq :: "dma_xilinx_axi_dma_data \<Rightarrow> nat \<Rightarrow> u32" where
  "channel_irq s n = (if n < length (channels s) then irq (channels s ! n) else stray_irq s n)"

definition dma_xilinx_axi_dma_lock_irq ::
  "kconfig \<Rightarrow> dma_xilinx_axi_dma_data \<Rightarrow> nat \<Rightarrow> int \<times> dma_xilinx_axi_dma_data" where
  "dma_xilinx_axi_dma_lock_irq k s channel_num =
     (case lock_irqs k of
        CONFIG_DMA_XILINX_AXI_DMA_LOCK_ALL_IRQS \<Rightarrow> irq_lock s
      | CONFIG_DMA_XILINX_AXI_DMA_LOCK_DMA_IRQS \<Rightarrow>
          (let ret0 = (if irq_is_enabled s (channel_irq s 0) then 1 else 0);
               ret = ret0 OR push_bit 1 (if irq_is_enabled s (channel_irq s 1) then 1 else 0)
           in (ret, irq_disable (irq_disable s (channel_irq s 0)) (channel_irq s 1)))
      | CONFIG_DMA_XILINX_AXI_DMA_LOCK_CHANNEL_IRQ \<Rightarrow>
          (let ret = (if irq_is_enabled s (channel_irq s channel_num) then 1 else 0)
           in (ret, irq_disable s (channel_irq s channel_num))))"

definition dma_xilinx_axi_dma_unlock_irq ::
  "kconfig \<Rightarrow> dma_xilinx_axi_dma_data \<Rightarrow> nat \<Rightarrow> int \<Rightarrow> dma_xilinx_axi_dma_data" where
  "dma_xilinx_axi_dma_unlock_irq k s channel_num key =
     (case lock_irqs k of
        CONFIG_DMA_XILINX_AXI_DMA_LOCK_ALL_IRQS \<Rightarrow> irq_unlock s key
      | CONFIG_DMA_XILINX_AXI_DMA_LOCK_DMA_IRQS \<Rightarrow>
          (let s1 = (if key AND 1 \<noteq> 0 then irq_enable s (channel_irq s 0) else s)
           in if key AND 2 \<noteq> 0 then irq_enable s1 (channel_irq s1 1) else s1)
      | CONFIG_DMA_XILINX_AXI_DMA_LOCK_CHANNEL_IRQ \<Rightarrow>
          (if key \<noteq> 0 then irq_enable s (channel_irq s channel_num) else s))"

subsection \<open>Register access\<close>

definition dma_xilinx_axi_dma_write_reg ::
  "dma_xilinx_axi_dma_data \<Rightarrow> dma_xilinx_axi_dma_channel \<Rightarrow> AxiDmaDirectionRegister \<Rightarrow> u32
     \<Rightarrow> dma_xilinx_axi_dma_data" where
  "dma_xilinx_axi_dma_write_reg s channel_data r val =
     s\<lparr>trace := trace s @ [EV_REG_WRITE (channel_regs channel_data + reg_offset r) val]\<rparr>"

definition dma_xilinx_axi_dma_read_reg ::
  "dma_xilinx_axi_dma_data \<Rightarrow> dma_xilinx_axi_dma_channel \<Rightarrow> AxiDmaDirectionRegister
     \<Rightarrow> u32 \<times> dma_xilinx_axi_dma_data" where
  "dma_xilinx_axi_dma_read_reg s channel_data r =
     (hw_read s (reads_done s) (channel_regs channel_data + reg_offset r),
      s\<lparr>reads_done := reads_done s + 1\<rparr>)"

subsection \<open>Writing through the channel and descriptor pointers\<close>

definition update_channel ::
  "dma_xilinx_axi_dma_data \<Rightarrow> nat \<Rightarrow> (dma_xilinx_axi_dma_channel \<Rightarrow> dma_xilinx_axi_dma_channel)
     \<Rightarrow> dma_xilinx_axi_dma_data" where
  "update_channel s ch f = s\<lparr>channels := (channels s)[ch := f (channels s ! ch)]\<rparr>"

definition update_descriptor ::
  "dma_xilinx_axi_dma_data \<Rightarrow> nat \<Rightarrow> nat
     \<Rightarrow> (dma_xilinx_axi_dma_sg_descriptor \<Rightarrow> dma_xilinx_axi_dma_sg_descriptor)
     \<Rightarrow> dma_xilinx_axi_dma_data" where
  "update_descriptor s ch i f =
     update_channel s ch (\<lambda>c. c\<lparr>descriptors := (descriptors c)[i := f (descriptors c ! i)]\<rparr>)"

text \<open>The address of \<open>descriptors[i]\<close>.\<close>

definition descriptor_addr :: "dma_xilinx_axi_dma_channel \<Rightarrow> nat \<Rightarrow> addr" where
  "descriptor_addr c i = descriptors_ptr c + sizeof_sg_descriptor * of_nat i"

subsection \<open>Reclaiming completed descriptors\<close>

definition csum_fcs_err :: "u32 \<Rightarrow> bool" where
  "csum_fcs_err checksum_status =
     (checksum_status AND XILINX_AXI_DMA_SG_DESCRIPTOR_APP2_FCS_ERR_MASK \<noteq> 0)"

definition csum_ip_err :: "u32 \<Rightarrow> bool" where
  "csum_ip_err checksum_status =
     (checksum_status AND XILINX_AXI_DMA_SG_DESCRIPTOR_APP2_IP_ERR_MASK
        = XILINX_AXI_DMA_SG_DESCRIPTOR_APP2_IP_ERR_MASK)"

definition csum_udp_err :: "u32 \<Rightarrow> bool" where
  "csum_udp_err checksum_status =
     (checksum_status AND XILINX_AXI_DMA_SG_DESCRIPTOR_APP2_UDP_ERR_MASK
        = XILINX_AXI_DMA_SG_DESCRIPTOR_APP2_UDP_ERR_MASK)"

definition csum_tcp_err :: "u32 \<Rightarrow> bool" where
  "csum_tcp_err checksum_status =
     (checksum_status AND XILINX_AXI_DMA_SG_DESCRIPTOR_APP2_TCP_ERR_MASK
        = XILINX_AXI_DMA_SG_DESCRIPTOR_APP2_TCP_ERR_MASK)"

text \<open>The result handed to the callback: the chain of \<open>if\<close>s at the head of the
  loop body of \<open>dma_xilinx_axi_dma_clean_up_sg_descriptors\<close>.\<close>

definition descriptor_retval :: "bool \<Rightarrow> u32 \<Rightarrow> u32 \<Rightarrow> int" where
  "descriptor_retval check_csum current_status checksum_status =
     (let retval = DMA_STATUS_COMPLETE;
          retval = (if current_status AND XILINX_AXI_DMA_SG_DESCRIPTOR_STATUS_DEC_ERR_MASK \<noteq> 0
                    then - EFAULT else retval);
          retval = (if current_status AND XILINX_AXI_DMA_SG_DESCRIPTOR_STATUS_SLV_ERR_MASK \<noteq> 0
                    then - EFAULT else retval);
          retval = (if current_status AND XILINX_AXI_DMA_SG_DESCRIPTOR_STATUS_INT_ERR_MASK \<noteq> 0
                    then - EFAULT else retval)
      in if check_csum then
           (let retval = (if csum_fcs_err checksum_status then - EFAULT else retval);
                retval = (if csum_ip_err checksum_status then - EFAULT else retval);
                retval = (if csum_udp_err checksum_status then - EFAULT else retval);
                retval = (if csum_tcp_err checksum_status then - EFAULT else retval)
            in retval)
         else retval)"

text \<open>The loop condition: some bit of the status outside the transferred-length field
  is set.\<close>

definition status_done :: "u32 \<Rightarrow> bool" where
  "status_done current_status =
     (current_status AND NOT XILINX_AXI_DMA_SG_DESCRIPTOR_STATUS_TRANSFERRED_MASK \<noteq> 0)"

text \<open>One pass through the loop body, for the channel with index \<open>ch\<close>.\<close>

definition clean_up_iteration :: "dma_xilinx_axi_dma_data \<Rightarrow> nat \<Rightarrow> dma_xilinx_axi_dma_data" where
  "clean_up_iteration s ch =
     (let channel_data = channels s ! ch;
          idx = completion_desc_index channel_data;
          current_descriptor = descriptors channel_data ! idx;
          current_status = status current_descriptor;
          s1 = update_channel s ch (\<lambda>c. c\<lparr>last_rx_size :=
                 current_status AND XILINX_AXI_DMA_SG_DESCRIPTOR_STATUS_LENGTH_MASK\<rparr>);
          retval = descriptor_retval (check_csum_in_isr channel_data) current_status
                     (app2 current_descriptor);
          s2 = (case completion_callback channel_data of
                  None \<Rightarrow> s1
                | Some cb \<Rightarrow> s1\<lparr>trace := trace s1 @
                    [EV_CALLBACK cb (completion_callback_user_data channel_data)
                       (if direction channel_data = MEMORY_TO_PERIPHERAL
                        then XILINX_AXI_DMA_TX_CHANNEL_NUM else XILINX_AXI_DMA_RX_CHANNEL_NUM)
                       retval]\<rparr>);
          s3 = update_descriptor s2 ch idx (\<lambda>d. d\<lparr>control := 0, status := 0\<rparr>);
          s4 = s3\<lparr>trace := trace s3 @ [EV_DESC_CLEARED ch idx]\<rparr>;
          idx1 = idx + 1;
          idx2 = (if num_descriptors channel_data \<le> idx1 then 0 else idx1)
      in update_channel s4 ch (\<lambda>c. c\<lparr>completion_desc_index := idx2\<rparr>))"

text \<open>The number of descriptors of channel \<open>ch\<close> whose status keeps the loop going.\<close>

definition done_count :: "dma_xilinx_axi_dma_data \<Rightarrow> nat \<Rightarrow> nat" where
  "done_count s ch = length (filter (\<lambda>d. status_done (status d)) (descriptors (channels s ! ch)))"

text \<open>
  The \<open>while\<close> loop. The status is read where the loop tests it. In C a cursor outside
  the array makes the read undefined; the model ends the sweep there, and the theorems
  below are about states whose cursors are inside the array.
\<close>

function clean_up_loop :: "dma_xilinx_axi_dma_data \<Rightarrow> nat \<Rightarrow> nat \<Rightarrow> nat \<times> dma_xilinx_axi_dma_data" where
  "clean_up_loop s ch processed_packets =
     (if ch < length (channels s)
         \<and> completion_desc_index (channels s ! ch) < length (descriptors (channels s ! ch))
         \<and> status_done (status (descriptors (channels s ! ch)
                                   ! completion_desc_index (channels s ! ch)))
      then clean_up_loop (clean_up_iteration s ch) ch (processed_packets + 1)
      else (processed_packets, s))"
  by pat_completeness auto

definition dma_xilinx_axi_dma_clean_up_sg_descriptors ::
  "dma_xilinx_axi_dma_data \<Rightarrow> nat \<Rightarrow> nat \<times> dma_xilinx_axi_dma_data" where
  "dma_xilinx_axi_dma_clean_up_sg_descriptors s ch = clean_up_loop s ch 0"

subsection \<open>Submitting a block\<close>

text \<open>
  \<open>dma_xilinx_axi_dma_transfer_block\<close>. \<open>block_size\<close> is a \<open>size_t\<close>, read as a
  natural number; the cast \<open>(uint32_t)block_size\<close> keeps its low 32 bits. With a 32-bit
  \<open>size_t\<close> no argument exceeds \<open>UINT32_MAX\<close>. The function does not check
  \<open>channel\<close>: its callers do.
\<close>

definition dma_xilinx_axi_dma_transfer_block ::
  "kconfig \<Rightarrow> dma_xilinx_axi_dma_data \<Rightarrow> nat \<Rightarrow> addr \<Rightarrow> nat \<Rightarrow> bool \<Rightarrow> bool
     \<Rightarrow> int \<times> dma_xilinx_axi_dma_data" where
  "dma_xilinx_axi_dma_transfer_block k s channel buffer_addr blk_size is_first is_last =
     (let (irq_key, s1) = dma_xilinx_axi_dma_lock_irq k s channel;
          channel_data = channels s1 ! channel;
          next0 = populated_desc_index channel_data + 1;
          next_desc_index = (if num_descriptors channel_data \<le> next0 then 0 else next0);
          current_descriptor = descriptors channel_data ! next_desc_index
      in if control current_descriptor \<noteq> 0 \<or> status current_descriptor \<noteq> 0 then
           (- EBUSY, dma_xilinx_axi_dma_unlock_irq k s1 channel irq_key)
         else if channel \<noteq> XILINX_AXI_DMA_TX_CHANNEL_NUM
                 \<and> CONFIG_DMA_XILINX_AXI_DMA_DISABLE_CACHE_WHEN_ACCESSING_SG_DESCRIPTORS k
                 \<and> (buffer_addr AND (sys_cache_data_line_size k - 1) \<noteq> 0
                      \<or> (of_nat blk_size :: addr) AND (sys_cache_data_line_size k - 1) \<noteq> 0) then
           (- EINVAL, dma_xilinx_axi_dma_unlock_irq k s1 channel irq_key)
         else
           (let s2 = update_descriptor s1 channel next_desc_index
                       (\<lambda>d. if CONFIG_DMA_64BIT k
                            then d\<lparr>buffer_address := ucast buffer_addr,
                                   buffer_address_msb := ucast (drop_bit 32 buffer_addr)\<rparr>
                            else d\<lparr>buffer_address := ucast buffer_addr\<rparr>);
                s3 = update_descriptor s2 channel next_desc_index
                       (\<lambda>d. d\<lparr>app0 := sg_desc_app0 channel_data\<rparr>)
            in if UINT32_MAX < blk_size then
                 (- EINVAL, dma_xilinx_axi_dma_unlock_irq k s3 channel irq_key)
               else
                 (let s4 = update_descriptor s3 channel next_desc_index
                             (\<lambda>d. d\<lparr>control := of_nat blk_size\<rparr>);
                      s5 = (if is_first
                            then update_descriptor s4 channel next_desc_index
                                   (\<lambda>d. d\<lparr>control := control d
                                            OR XILINX_AXI_DMA_SG_DESCRIPTOR_CTRL_SOF_MASK\<rparr>)
                            else s4);
                      s6 = (if is_last
                            then update_descriptor s5 channel next_desc_index
                                   (\<lambda>d. d\<lparr>control := control d
                                            OR XILINX_AXI_DMA_SG_DESCRIPTOR_CTRL_EOF_MASK\<rparr>)
                            else s5);
                      s7 = update_channel s6 channel
                             (\<lambda>c. c\<lparr>populated_desc_index := next_desc_index\<rparr>)
                  in (0, dma_xilinx_axi_dma_unlock_irq k s7 channel irq_key))))"

definition dma_xilinx_axi_dma_config_reload ::
  "kconfig \<Rightarrow> dma_xilinx_axi_dma_config \<Rightarrow> dma_xilinx_axi_dma_data \<Rightarrow> nat \<Rightarrow> addr \<Rightarrow> addr \<Rightarrow> nat
     \<Rightarrow> int \<times> dma_xilinx_axi_dma_data" where
  "dma_xilinx_axi_dma_config_reload k cfg s channel src dst sz =
     (if cfg_channels cfg \<le> channel then (- EINVAL, s)
      else dma_xilinx_axi_dma_transfer_block k s channel
             (if channel = XILINX_AXI_DMA_TX_CHANNEL_NUM then src else dst) sz True True)"

subsection \<open>Start, stop, status\<close>

text \<open>The value \<open>dma_xilinx_axi_dma_start\<close> writes to DMACR when the channel is
  halted, built by the same sequence of assignments.\<close>

definition start_new_control :: "kconfig \<Rightarrow> u32" where
  "start_new_control k =
     (let new_control = 0;
          new_control = new_control OR XILINX_AXI_DMA_REGS_DMACR_RS;
          new_control = new_control AND NOT XILINX_AXI_DMA_REGS_DMACR_RESET;
          new_control = new_control AND NOT XILINX_AXI_DMA_REGS_DMACR_KEYHOLE;
          new_control = new_control AND NOT XILINX_AXI_DMA_REGS_DMACR_CYC_BD_EN;
          new_control = new_control OR XILINX_AXI_DMA_REGS_DMACR_IOC_IRQEN;
          new_control = new_control OR XILINX_AXI_DMA_REGS_DMACR_DLY_IRQEN;
          new_control = new_control OR XILINX_AXI_DMA_REGS_DMACR_ERR_IRQEN;
          new_control = new_control OR
            push_bit XILINX_AXI_DMA_REGS_DMACR_IRQTHRESH_SHIFT_BITS
              (CONFIG_DMA_XILINX_AXI_DMA_INTERRUPT_THRESHOLD k);
          new_control = new_control OR
            push_bit XILINX_AXI_DMA_REGS_DMACR_IRQDELAY_SHIFT_BITS
              (CONFIG_DMA_XILINX_AXI_DMA_INTERRUPT_TIMEOUT k)
      in new_control)"

definition dma_xilinx_axi_dma_start ::
  "kconfig \<Rightarrow> dma_xilinx_axi_dma_config \<Rightarrow> dma_xilinx_axi_dma_data \<Rightarrow> nat
     \<Rightarrow> int \<times> dma_xilinx_axi_dma_data" where
  "dma_xilinx_axi_dma_start k cfg s channel =
     (let (irq_key, s1) = dma_xilinx_axi_dma_lock_irq k s channel
      in if cfg_channels cfg \<le> channel then
           (- EINVAL, dma_xilinx_axi_dma_unlock_irq k s1 channel irq_key)
         else
           (let channel_data = channels s1 ! channel;
                current_descriptor =
                  descriptor_addr channel_data (populated_desc_index channel_data);
                (dmasr, s2) = dma_xilinx_axi_dma_read_reg s1 channel_data XILINX_AXI_DMA_REG_DMASR;
                s3 = (if dmasr AND XILINX_AXI_DMA_REGS_DMASR_HALTED \<noteq> 0
                      then dma_xilinx_axi_dma_write_reg s2 channel_data XILINX_AXI_DMA_REG_DMACR
                             (start_new_control k)
                      else s2);
                s4 = (if CONFIG_DMA_64BIT k
                      then dma_xilinx_axi_dma_write_reg
                             (dma_xilinx_axi_dma_write_reg s3 channel_data
                                XILINX_AXI_DMA_REG_TAILDESC (ucast current_descriptor))
                             channel_data XILINX_AXI_DMA_REG_TAILDESC_MSB
                             (ucast (drop_bit 32 current_descriptor))
                      else dma_xilinx_axi_dma_write_reg s3 channel_data
                             XILINX_AXI_DMA_REG_TAILDESC (ucast current_descriptor))
            in (0, dma_xilinx_axi_dma_unlock_irq k s4 channel irq_key)))"

definition dma_xilinx_axi_dma_stop ::
  "dma_xilinx_axi_dma_config \<Rightarrow> dma_xilinx_axi_dma_data \<Rightarrow> nat \<Rightarrow> int \<times> dma_xilinx_axi_dma_data" where
  "dma_xilinx_axi_dma_stop cfg s channel =
     (if cfg_channels cfg \<le> channel then (- EINVAL, s)
      else
        (let channel_data = channels s ! channel;
             (new_control, s1) = dma_xilinx_axi_dma_read_reg s channel_data XILINX_AXI_DMA_REG_DMACR;
             new_control1 = new_control AND NOT XILINX_AXI_DMA_REGS_DMACR_RS
         in (0, dma_xilinx_axi_dma_write_reg s1 channel_data XILINX_AXI_DMA_REG_DMACR new_control1)))"

text \<open>\<open>dma_xilinx_axi_dma_get_status\<close> writes through the pointer \<open>stat\<close>; the model
  returns the structure. The second register read is made only when the first operand
  of \<open>&&\<close> is true.\<close>

definition dma_xilinx_axi_dma_get_status ::
  "dma_xilinx_axi_dma_config \<Rightarrow> dma_xilinx_axi_dma_data \<Rightarrow> nat \<Rightarrow> dma_status
     \<Rightarrow> int \<times> dma_status \<times> dma_xilinx_axi_dma_data" where
  "dma_xilinx_axi_dma_get_status cfg s channel stat =
     (if cfg_channels cfg \<le> channel then (- EINVAL, stat, s)
      else
        (let channel_data = channels s ! channel;
             stat0 = \<lparr>busy = False, dir = MEMORY_TO_MEMORY\<rparr>;
             (sr1, s1) = dma_xilinx_axi_dma_read_reg s channel_data XILINX_AXI_DMA_REG_DMASR;
             (b, s2) = (if sr1 AND XILINX_AXI_DMA_REGS_DMASR_IDLE \<noteq> 0 then (False, s1)
                        else (let (sr2, s2) = dma_xilinx_axi_dma_read_reg s1 channel_data
                                                XILINX_AXI_DMA_REG_DMASR
                              in (\<not> (sr2 AND XILINX_AXI_DMA_REGS_DMASR_HALTED \<noteq> 0), s2)));
             stat1 = stat0\<lparr>busy := b\<rparr>;
             stat2 = stat1\<lparr>dir := direction channel_data\<rparr>
         in (0, stat2, s2)))"

subsection \<open>Configuring a channel\<close>

text \<open>
  One pass through the \<open>for\<close> loop of \<open>dma_xilinx_axi_dma_configure\<close>: descriptor
  \<open>i\<close> is linked to its successor, the last one to the first. The \<open>__ASSERT\<close> in the
  loop is compiled out unless assertions are enabled and is not modelled.
\<close>

definition configure_link ::
  "kconfig \<Rightarrow> nat \<Rightarrow> dma_xilinx_axi_dma_data \<Rightarrow> nat \<Rightarrow> dma_xilinx_axi_dma_data" where
  "configure_link k channel s i =
     (let channel_data = channels s ! channel;
          nextdesc = (if i + 1 < num_descriptors channel_data
                      then descriptor_addr channel_data (i + 1)
                      else descriptor_addr channel_data 0);
          low_bytes = (ucast (nextdesc AND 0xffffffff) :: u32);
          s1 = update_descriptor s channel i (\<lambda>d. d\<lparr>nxtdesc := low_bytes\<rparr>)
      in if CONFIG_DMA_64BIT k
         then (let high_bytes = (ucast (drop_bit 32 nextdesc AND 0xffffffff) :: u32)
               in update_descriptor s1 channel i (\<lambda>d. d\<lparr>nxtdesc_msb := high_bytes\<rparr>))
         else s1)"

text \<open>\<open>ret = ret || dma_xilinx_axi_dma_transfer_block(...)\<close>: the logical or leaves 0
  or 1 in \<open>ret\<close>, and submits only while \<open>ret\<close> is 0.\<close>

definition configure_block_step ::
  "kconfig \<Rightarrow> dma_xilinx_axi_dma_data \<Rightarrow> nat \<Rightarrow> int \<Rightarrow> nat \<Rightarrow> dma_block_config \<Rightarrow> bool
     \<Rightarrow> int \<times> dma_xilinx_axi_dma_data" where
  "configure_block_step k s channel ret block_count current_block no_next_block =
     (if ret \<noteq> 0 then (1, s)
      else (let (r, s1) = dma_xilinx_axi_dma_transfer_block k s channel
                            (if channel = XILINX_AXI_DMA_TX_CHANNEL_NUM
                             then source_address current_block
                             else dest_address current_block)
                            (block_size current_block) (block_count = 0) no_next_block
            in ((if r \<noteq> 0 then 1 else 0), s1)))"

text \<open>The \<open>do ... while\<close> loop over the chain of blocks: \<open>current_block\<close> and the
  blocks that follow it.\<close>

fun configure_blocks ::
  "kconfig \<Rightarrow> dma_xilinx_axi_dma_data \<Rightarrow> nat \<Rightarrow> int \<Rightarrow> nat \<Rightarrow> dma_block_config
     \<Rightarrow> dma_block_config list \<Rightarrow> int \<times> dma_xilinx_axi_dma_data" where
  "configure_blocks k s channel ret block_count current_block [] =
     configure_block_step k s channel ret block_count current_block True"
| "configure_blocks k s channel ret block_count current_block (b # bs) =
     (let (ret1, s1) = configure_block_step k s channel ret block_count current_block False
      in if ret1 = 0 then configure_blocks k s1 channel ret1 (block_count + 1) b bs
         else (ret1, s1))"

text \<open>The \<open>switch\<close> on \<open>linked_channel\<close>; \<open>None\<close> is the default case.\<close>

definition configure_csum ::
  "dma_xilinx_axi_dma_data \<Rightarrow> nat \<Rightarrow> nat \<Rightarrow> dma_xilinx_axi_dma_data option" where
  "configure_csum s channel linked =
     (if linked = XILINX_AXI_DMA_LINKED_CHANNEL_FULL_CSUM_OFFLOAD then
        Some (if channel = XILINX_AXI_DMA_TX_CHANNEL_NUM
              then update_channel s channel (\<lambda>c. c\<lparr>sg_desc_app0 :=
                     XILINX_AXI_DMA_SG_DESCRIPTOR_APP0_CHECKSUM_OFFLOAD_FULL\<rparr>)
              else update_channel s channel (\<lambda>c. c\<lparr>check_csum_in_isr := True\<rparr>))
      else if linked = XILINX_AXI_DMA_LINKED_CHANNEL_NO_CSUM_OFFLOAD then
        Some (update_channel s channel (\<lambda>c. c\<lparr>sg_desc_app0 :=
                XILINX_AXI_DMA_SG_DESCRIPTOR_APP0_CHECKSUM_OFFLOAD_NONE\<rparr>))
      else None)"

text \<open>The part of \<open>dma_xilinx_axi_dma_configure\<close> between the argument checks and the
  \<open>switch\<close>: cursors, links, CURDESC. The arrays are not empty, so
  \<open>num_descriptors - 1\<close> does not wrap.\<close>

definition configure_ring ::
  "kconfig \<Rightarrow> dma_xilinx_axi_dma_data \<Rightarrow> nat \<Rightarrow> dma_xilinx_axi_dma_data" where
  "configure_ring k s channel =
     (let s1 = update_channel s channel
                 (\<lambda>c. c\<lparr>populated_desc_index := num_descriptors c - 1\<rparr>);
          s2 = update_channel s1 channel (\<lambda>c. c\<lparr>completion_desc_index := 0\<rparr>);
          s3 = foldl (configure_link k channel) s2 [0..<num_descriptors (channels s2 ! channel)];
          first_descriptor = descriptor_addr (channels s3 ! channel) 0;
          s4 = (if CONFIG_DMA_64BIT k
                then dma_xilinx_axi_dma_write_reg
                       (dma_xilinx_axi_dma_write_reg s3 (channels s3 ! channel)
                          XILINX_AXI_DMA_REG_CURDESC (ucast (first_descriptor AND 0xffffffff)))
                       (channels s3 ! channel) XILINX_AXI_DMA_REG_CURDESC_MSB
                       (ucast (drop_bit 32 first_descriptor))
                else dma_xilinx_axi_dma_write_reg s3 (channels s3 ! channel)
                       XILINX_AXI_DMA_REG_CURDESC (ucast first_descriptor))
      in update_channel s4 channel (\<lambda>c. c\<lparr>check_csum_in_isr := False\<rparr>))"

definition dma_xilinx_axi_dma_configure ::
  "kconfig \<Rightarrow> dma_xilinx_axi_dma_config \<Rightarrow> dma_xilinx_axi_dma_data \<Rightarrow> nat \<Rightarrow> dma_config
     \<Rightarrow> int \<times> dma_xilinx_axi_dma_data" where
  "dma_xilinx_axi_dma_configure k cfg s channel dma_cfg =
     (if cfg_channels cfg \<le> channel then (- EINVAL, s)
      else if source_addr_adj (head_block dma_cfg) = DMA_ADDR_ADJ_DECREMENT then (- ENOTSUP, s)
      else if dest_addr_adj (head_block dma_cfg) = DMA_ADDR_ADJ_DECREMENT then (- ENOTSUP, s)
      else if source_addr_adj (head_block dma_cfg) \<noteq> DMA_ADDR_ADJ_INCREMENT
              \<and> source_addr_adj (head_block dma_cfg) \<noteq> DMA_ADDR_ADJ_NO_CHANGE then (- ENOTSUP, s)
      else if dest_addr_adj (head_block dma_cfg) \<noteq> DMA_ADDR_ADJ_INCREMENT
              \<and> dest_addr_adj (head_block dma_cfg) \<noteq> DMA_ADDR_ADJ_NO_CHANGE then (- ENOTSUP, s)
      else if channel = XILINX_AXI_DMA_TX_CHANNEL_NUM
              \<and> channel_direction dma_cfg \<noteq> MEMORY_TO_PERIPHERAL then (- ENOTSUP, s)
      else if channel = XILINX_AXI_DMA_RX_CHANNEL_NUM
              \<and> channel_direction dma_cfg \<noteq> PERIPHERAL_TO_MEMORY then (- ENOTSUP, s)
      else
        (let s1 = configure_ring k s channel
         in case configure_csum s1 channel (linked_channel dma_cfg) of
              None \<Rightarrow> (- EINVAL, s1)
            | Some s2 \<Rightarrow>
                (let s3 = update_channel s2 channel
                            (\<lambda>c. c\<lparr>completion_callback := dma_callback dma_cfg\<rparr>);
                     s4 = update_channel s3 channel
                            (\<lambda>c. c\<lparr>completion_callback_user_data := user_data dma_cfg\<rparr>)
                 in configure_blocks k s4 channel 0 0 (head_block dma_cfg)
                      (next_blocks dma_cfg))))"

text \<open>The arguments pass every check at the head of
  \<open>dma_xilinx_axi_dma_configure\<close>.\<close>

definition configure_args_ok :: "dma_xilinx_axi_dma_config \<Rightarrow> nat \<Rightarrow> dma_config \<Rightarrow> bool" where
  "configure_args_ok cfg channel dma_cfg =
     (channel < cfg_channels cfg
      \<and> (source_addr_adj (head_block dma_cfg) = DMA_ADDR_ADJ_INCREMENT
           \<or> source_addr_adj (head_block dma_cfg) = DMA_ADDR_ADJ_NO_CHANGE)
      \<and> (dest_addr_adj (head_block dma_cfg) = DMA_ADDR_ADJ_INCREMENT
           \<or> dest_addr_adj (head_block dma_cfg) = DMA_ADDR_ADJ_NO_CHANGE)
      \<and> (channel = XILINX_AXI_DMA_TX_CHANNEL_NUM
           \<and> channel_direction dma_cfg = MEMORY_TO_PERIPHERAL
          \<or> channel = XILINX_AXI_DMA_RX_CHANNEL_NUM
           \<and> channel_direction dma_cfg = PERIPHERAL_TO_MEMORY
          \<or> XILINX_AXI_DMA_RX_CHANNEL_NUM < channel))"

text \<open>What one pass of the linking loop does to descriptor \<open>i\<close> of channel \<open>c\<close>.\<close>

definition link_descriptor ::
  "kconfig \<Rightarrow> dma_xilinx_axi_dma_channel \<Rightarrow> nat \<Rightarrow> dma_xilinx_axi_dma_sg_descriptor
     \<Rightarrow> dma_xilinx_axi_dma_sg_descriptor" where
  "link_descriptor k c i d =
     (let nextdesc = descriptor_addr c (if i + 1 < num_descriptors c then i + 1 else 0)
      in if CONFIG_DMA_64BIT k
         then d\<lparr>nxtdesc := ucast nextdesc, nxtdesc_msb := ucast (drop_bit 32 nextdesc)\<rparr>
         else d\<lparr>nxtdesc := ucast nextdesc\<rparr>)"

text \<open>The state in which \<open>dma_xilinx_axi_dma_configure\<close> enters the loop over the
  blocks; \<open>None\<close> when the selector of the checksum mode is refused.\<close>

definition configure_loop_entry ::
  "kconfig \<Rightarrow> dma_xilinx_axi_dma_data \<Rightarrow> nat \<Rightarrow> dma_config \<Rightarrow> dma_xilinx_axi_dma_data option" where
  "configure_loop_entry k s channel dma_cfg =
     (case configure_csum (configure_ring k s channel) channel (linked_channel dma_cfg) of
        None \<Rightarrow> None
      | Some s2 \<Rightarrow>
          Some (update_channel
                  (update_channel s2 channel
                     (\<lambda>c. c\<lparr>completion_callback := dma_callback dma_cfg\<rparr>))
                  channel (\<lambda>c. c\<lparr>completion_callback_user_data := user_data dma_cfg\<rparr>)))"

subsection \<open>Initialisation\<close>

text \<open>The function the instantiation macro generates for \<open>irq_configure\<close>.\<close>

definition irq_configure ::
  "dma_xilinx_axi_dma_config \<Rightarrow> dma_xilinx_axi_dma_data \<Rightarrow> dma_xilinx_axi_dma_data" where
  "irq_configure cfg s =
     (let s1 = update_channel s XILINX_AXI_DMA_TX_CHANNEL_NUM (\<lambda>c. c\<lparr>irq := irqn_tx cfg\<rparr>);
          s2 = s1\<lparr>trace := trace s1 @ [EV_IRQ_CONNECT (irqn_tx cfg) XILINX_AXI_DMA_TX_CHANNEL_NUM]\<rparr>;
          s3 = irq_enable s2 (irqn_tx cfg);
          s4 = update_channel s3 XILINX_AXI_DMA_RX_CHANNEL_NUM (\<lambda>c. c\<lparr>irq := irqn_rx cfg\<rparr>);
          s5 = s4\<lparr>trace := trace s4 @ [EV_IRQ_CONNECT (irqn_rx cfg) XILINX_AXI_DMA_RX_CHANNEL_NUM]\<rparr>
      in irq_enable s5 (irqn_rx cfg))"

text \<open>The polling loop of \<open>dma_xilinx_axi_dma_init\<close>, by the number of passes left;
  the result says whether \<open>reset\<close> was set.\<close>

fun soft_reset_poll ::
  "dma_xilinx_axi_dma_data \<Rightarrow> dma_xilinx_axi_dma_channel \<Rightarrow> nat \<Rightarrow> bool \<times> dma_xilinx_axi_dma_data" where
  "soft_reset_poll s channel_data 0 = (False, s)"
| "soft_reset_poll s channel_data (Suc n) =
     (let (cr, s1) = dma_xilinx_axi_dma_read_reg s channel_data XILINX_AXI_DMA_REG_DMACR
      in if cr AND XILINX_AXI_DMA_REGS_DMACR_RESET \<noteq> 0
         then soft_reset_poll (s1\<lparr>trace := trace s1 @ [EV_MSLEEP 1]\<rparr>) channel_data n
         else (True, s1))"

text \<open>\<open>dma_xilinx_axi_dma_init\<close>, assignment by assignment. The last assignment before
  the reset is to the direction of the TX channel, as the source has it.\<close>

definition dma_xilinx_axi_dma_init ::
  "kconfig \<Rightarrow> dma_xilinx_axi_dma_config \<Rightarrow> dma_xilinx_axi_dma_data
     \<Rightarrow> int \<times> dma_xilinx_axi_dma_data" where
  "dma_xilinx_axi_dma_init k cfg s =
     (if cfg_channels cfg \<noteq> XILINX_AXI_DMA_NUM_CHANNELS then (- EINVAL, s)
      else
        (let s1 = update_channel s XILINX_AXI_DMA_TX_CHANNEL_NUM
                    (\<lambda>c. c\<lparr>descriptors_ptr := descriptors_tx_addr s\<rparr>);
             s2 = update_channel s1 XILINX_AXI_DMA_TX_CHANNEL_NUM
                    (\<lambda>c. c\<lparr>num_descriptors := CONFIG_DMA_XILINX_AXI_DMA_SG_DESCRIPTOR_NUM_TX k\<rparr>);
             s3 = update_channel s2 XILINX_AXI_DMA_TX_CHANNEL_NUM
                    (\<lambda>c. c\<lparr>channel_regs := reg cfg + XILINX_AXI_DMA_MM2S_REG_OFFSET\<rparr>);
             s4 = update_channel s3 XILINX_AXI_DMA_TX_CHANNEL_NUM
                    (\<lambda>c. c\<lparr>direction := MEMORY_TO_PERIPHERAL\<rparr>);
             s5 = update_channel s4 XILINX_AXI_DMA_RX_CHANNEL_NUM
                    (\<lambda>c. c\<lparr>descriptors_ptr := descriptors_rx_addr s\<rparr>);
             s6 = update_channel s5 XILINX_AXI_DMA_RX_CHANNEL_NUM
                    (\<lambda>c. c\<lparr>num_descriptors := CONFIG_DMA_XILINX_AXI_DMA_SG_DESCRIPTOR_NUM_RX k\<rparr>);
             s7 = update_channel s6 XILINX_AXI_DMA_RX_CHANNEL_NUM
                    (\<lambda>c. c\<lparr>channel_regs := reg cfg + XILINX_AXI_DMA_S2MM_REG_OFFSET\<rparr>);
             s8 = update_channel s7 XILINX_AXI_DMA_TX_CHANNEL_NUM
                    (\<lambda>c. c\<lparr>direction := PERIPHERAL_TO_MEMORY\<rparr>);
             s9 = dma_xilinx_axi_dma_write_reg s8 (channels s8 ! XILINX_AXI_DMA_RX_CHANNEL_NUM)
                    XILINX_AXI_DMA_REG_DMACR XILINX_AXI_DMA_REGS_DMACR_RESET;
             (reset, s10) = soft_reset_poll s9 (channels s9 ! XILINX_AXI_DMA_RX_CHANNEL_NUM) 1000
         in if \<not> reset then (- EIO, s10) else (0, irq_configure cfg s10)))"

subsection \<open>Well-formed channels and the state of the ring\<close>

text \<open>
  What \<open>dma_xilinx_axi_dma_init\<close> and \<open>dma_xilinx_axi_dma_configure\<close> establish and
  every other function relies on: \<open>num_descriptors\<close> is the size of the array, the array
  is not empty, and both cursors are inside it.
\<close>

definition channel_wf :: "dma_xilinx_axi_dma_channel \<Rightarrow> bool" where
  "channel_wf c =
     (num_descriptors c = length (descriptors c) \<and> 0 < num_descriptors c
      \<and> populated_desc_index c < num_descriptors c
      \<and> completion_desc_index c < num_descriptors c)"

definition descriptor_free :: "dma_xilinx_axi_dma_sg_descriptor \<Rightarrow> bool" where
  "descriptor_free d = (control d = 0 \<and> status d = 0)"

definition ring_drained :: "dma_xilinx_axi_dma_channel \<Rightarrow> bool" where
  "ring_drained c = list_all descriptor_free (descriptors c)"

definition ring_full :: "dma_xilinx_axi_dma_channel \<Rightarrow> bool" where
  "ring_full c = list_all (\<lambda>d. \<not> descriptor_free d) (descriptors c)"

text \<open>The ring as \<open>dma_xilinx_axi_dma_configure\<close> leaves it before the first submission
  when the descriptors were zero-initialised.\<close>

definition ring_fresh :: "dma_xilinx_axi_dma_channel \<Rightarrow> bool" where
  "ring_fresh c =
     (num_descriptors c = length (descriptors c) \<and> 0 < num_descriptors c
      \<and> populated_desc_index c = num_descriptors c - 1
      \<and> completion_desc_index c = 0
      \<and> ring_drained c)"

text \<open>
  Modelled from the spec: the DMA engine itself is not part of the sources. It marks a
  descriptor by writing its status word, and it is handed only descriptors that are not
  free (section 3 of the specification: control and status are both zero exactly for a
  free descriptor); a write to a free descriptor or outside the ring does not happen.
\<close>

definition hw_write_status ::
  "dma_xilinx_axi_dma_data \<Rightarrow> nat \<Rightarrow> nat \<Rightarrow> u32 \<Rightarrow> dma_xilinx_axi_dma_data" where
  "hw_write_status s ch i st =
     (if ch < length (channels s) \<and> i < length (descriptors (channels s ! ch))
         \<and> \<not> descriptor_free (descriptors (channels s ! ch) ! i)
      then update_descriptor s ch i (\<lambda>d. d\<lparr>status := st\<rparr>)
      else s)"

text \<open>Operations on one channel: a submission, a completion sweep, a status write by
  the hardware.\<close>

datatype ring_op =
    OP_SUBMIT addr nat bool bool
  | OP_SWEEP
  | HW_STATUS nat u32

text \<open>A run keeps two counts beside the state: the submissions that returned 0, and the
  sum of the numbers of processed packets the sweeps returned.\<close>

fun ring_step ::
  "kconfig \<Rightarrow> nat \<Rightarrow> dma_xilinx_axi_dma_data \<times> nat \<times> nat \<Rightarrow> ring_op
     \<Rightarrow> dma_xilinx_axi_dma_data \<times> nat \<times> nat" where
  "ring_step k ch (s, accepted, reclaimed) (OP_SUBMIT buffer_addr blk_size is_first is_last) =
     (let (r, s1) = dma_xilinx_axi_dma_transfer_block k s ch buffer_addr blk_size is_first is_last
      in (s1, (if r = 0 then accepted + 1 else accepted), reclaimed))"
| "ring_step k ch (s, accepted, reclaimed) OP_SWEEP =
     (let (processed_packets, s1) = dma_xilinx_axi_dma_clean_up_sg_descriptors s ch
      in (s1, accepted, reclaimed + processed_packets))"
| "ring_step k ch (s, accepted, reclaimed) (HW_STATUS i st) =
     (hw_write_status s ch i st, accepted, reclaimed)"

definition run_ops ::
  "kconfig \<Rightarrow> nat \<Rightarrow> dma_xilinx_axi_dma_data \<Rightarrow> ring_op list
     \<Rightarrow> dma_xilinx_axi_dma_data \<times> nat \<times> nat" where
  "run_ops k ch s ops = foldl (ring_step k ch) (s, 0, 0) ops"

text \<open>A submission that writes a control word other than zero.\<close>

fun submit_nonzero :: "ring_op \<Rightarrow> bool" where
  "submit_nonzero (OP_SUBMIT buffer_addr blk_size is_first is_last) =
     ((of_nat blk_size :: u32) \<noteq> 0 \<or> is_first \<or> is_last)"
| "submit_nonzero OP_SWEEP = True"
| "submit_nonzero (HW_STATUS i st) = True"

text \<open>
  The slots between the two cursors. A run has accepted \<open>subm\<close> submissions and reclaimed
  \<open>recl\<close> descriptors; the descriptors submitted and not yet reclaimed are those numbered
  \<open>recl\<close> up to \<open>subm - 1\<close>, and descriptor number \<open>k\<close> lives in slot \<open>k mod n\<close>.
\<close>

definition in_flight :: "nat \<Rightarrow> nat \<Rightarrow> nat \<Rightarrow> nat set" where
  "in_flight n subm recl = (\<lambda>k. k mod n) ` {recl..<subm}"

text \<open>What the cursors and the descriptors of a channel have to do with these two counts:
  the completion cursor is at the oldest descriptor not yet reclaimed, the producer cursor
  at the newest one submitted, the slots in between have a control word, and every other
  slot is free.\<close>

definition ring_inv :: "dma_xilinx_axi_dma_channel \<Rightarrow> nat \<Rightarrow> nat \<Rightarrow> bool" where
  "ring_inv c subm recl =
     (channel_wf c \<and> recl \<le> subm \<and> subm \<le> recl + num_descriptors c
      \<and> completion_desc_index c = recl mod num_descriptors c
      \<and> populated_desc_index c = (subm + num_descriptors c - 1) mod num_descriptors c
      \<and> (\<forall>i < num_descriptors c.
            if i \<in> in_flight (num_descriptors c) subm recl
            then control (descriptors c ! i) \<noteq> 0
            else descriptor_free (descriptors c ! i)))"

text \<open>The events one reclaimed descriptor leaves in the trace: the callback, if one is
  registered, then the clearing of the descriptor.\<close>

definition slot_events :: "dma_xilinx_axi_dma_channel \<Rightarrow> nat \<Rightarrow> nat \<Rightarrow> event list" where
  "slot_events c ch i =
     (case completion_callback c of
        None \<Rightarrow> []
      | Some cb \<Rightarrow>
          [EV_CALLBACK cb (completion_callback_user_data c)
             (if direction c = MEMORY_TO_PERIPHERAL
              then XILINX_AXI_DMA_TX_CHANNEL_NUM else XILINX_AXI_DMA_RX_CHANNEL_NUM)
             (descriptor_retval (check_csum_in_isr c) (status (descriptors c ! i))
                (app2 (descriptors c ! i)))])
     @ [EV_DESC_CLEARED ch i]"

text \<open>
  What a sweep that reclaims \<open>q\<close> descriptors has done, from the channel \<open>c\<close> and trace
  \<open>tr\<close> it started with to the channel \<open>c'\<close> and trace \<open>tr'\<close> it ends with: the slots it
  visited are the \<open>q\<close> slots from the completion cursor on, each of them had a status that
  marks it complete or failed, each left its events in the trace in that order, each is
  cleared and nothing else in the ring is touched, and the sweep stopped at a slot whose
  status does not mark it (or after a whole turn of the ring).
\<close>

definition sweep_indices :: "dma_xilinx_axi_dma_channel \<Rightarrow> nat \<Rightarrow> nat list" where
  "sweep_indices c q =
     map (\<lambda>j. (completion_desc_index c + j) mod num_descriptors c) [0..<q]"

definition reclaimed :: "dma_xilinx_axi_dma_sg_descriptor \<Rightarrow> dma_xilinx_axi_dma_sg_descriptor" where
  "reclaimed d = d\<lparr>control := 0, status := 0\<rparr>"

definition sweep_post ::
  "dma_xilinx_axi_dma_channel \<Rightarrow> nat \<Rightarrow> event list \<Rightarrow> nat
     \<Rightarrow> dma_xilinx_axi_dma_channel \<Rightarrow> event list \<Rightarrow> bool" where
  "sweep_post c ch tr q c' tr' =
     (q \<le> num_descriptors c
      \<and> distinct (sweep_indices c q)
      \<and> list_all (\<lambda>i. status_done (status (descriptors c ! i))) (sweep_indices c q)
      \<and> (q = num_descriptors c
          \<or> \<not> status_done (status (descriptors c
                 ! ((completion_desc_index c + q) mod num_descriptors c))))
      \<and> tr' = tr @ concat (map (slot_events c ch) (sweep_indices c q))
      \<and> completion_desc_index c' = (completion_desc_index c + q) mod num_descriptors c
      \<and> populated_desc_index c' = populated_desc_index c
      \<and> num_descriptors c' = num_descriptors c
      \<and> completion_callback c' = completion_callback c
      \<and> descriptors c'
          = map (\<lambda>i. if i \<in> set (sweep_indices c q) then reclaimed (descriptors c ! i)
                     else descriptors c ! i)
              [0..<length (descriptors c)])"

text \<open>No descriptor that was not free has had its control or status changed, and the
  completion cursor is where it was.\<close>

definition keeps_pending :: "dma_xilinx_axi_dma_channel \<Rightarrow> dma_xilinx_axi_dma_channel \<Rightarrow> bool" where
  "keeps_pending c c' =
     (length (descriptors c') = length (descriptors c)
      \<and> (\<forall>i < length (descriptors c).
            descriptor_free (descriptors c ! i)
            \<or> (control (descriptors c' ! i) = control (descriptors c ! i)
                \<and> status (descriptors c' ! i) = status (descriptors c ! i))))"

subsection \<open>The effect of a submission on its channel\<close>

text \<open>
  The index \<open>dma_xilinx_axi_dma_transfer_block\<close> computes, the alignment test it makes for
  the RX channel, the control word it writes, and what the function does to the channel
  structure alone. \<open>transfer_block_view\<close> below proves that the function acts on its
  channel as \<open>submit_view\<close> says.
\<close>

definition next_index :: "dma_xilinx_axi_dma_channel \<Rightarrow> nat" where
  "next_index c =
     (if num_descriptors c \<le> populated_desc_index c + 1 then 0 else populated_desc_index c + 1)"

definition rx_misaligned :: "kconfig \<Rightarrow> nat \<Rightarrow> addr \<Rightarrow> nat \<Rightarrow> bool" where
  "rx_misaligned k channel buffer_addr blk_size =
     (channel \<noteq> XILINX_AXI_DMA_TX_CHANNEL_NUM
      \<and> CONFIG_DMA_XILINX_AXI_DMA_DISABLE_CACHE_WHEN_ACCESSING_SG_DESCRIPTORS k
      \<and> (buffer_addr AND (sys_cache_data_line_size k - 1) \<noteq> 0
           \<or> (of_nat blk_size :: addr) AND (sys_cache_data_line_size k - 1) \<noteq> 0))"

definition submit_control :: "nat \<Rightarrow> bool \<Rightarrow> bool \<Rightarrow> u32" where
  "submit_control blk_size is_first is_last =
     (let c0 = (of_nat blk_size :: u32);
          c1 = (if is_first then c0 OR XILINX_AXI_DMA_SG_DESCRIPTOR_CTRL_SOF_MASK else c0)
      in if is_last then c1 OR XILINX_AXI_DMA_SG_DESCRIPTOR_CTRL_EOF_MASK else c1)"

definition submit_buffer ::
  "kconfig \<Rightarrow> dma_xilinx_axi_dma_channel \<Rightarrow> addr \<Rightarrow> dma_xilinx_axi_dma_sg_descriptor
     \<Rightarrow> dma_xilinx_axi_dma_sg_descriptor" where
  "submit_buffer k c buffer_addr d =
     (if CONFIG_DMA_64BIT k
      then d\<lparr>buffer_address := ucast buffer_addr,
             buffer_address_msb := ucast (drop_bit 32 buffer_addr)\<rparr>
      else d\<lparr>buffer_address := ucast buffer_addr\<rparr>)\<lparr>app0 := sg_desc_app0 c\<rparr>"

definition submit_view ::
  "kconfig \<Rightarrow> nat \<Rightarrow> dma_xilinx_axi_dma_channel \<Rightarrow> addr \<Rightarrow> nat \<Rightarrow> bool \<Rightarrow> bool
     \<Rightarrow> int \<times> dma_xilinx_axi_dma_channel" where
  "submit_view k channel c buffer_addr blk_size is_first is_last =
     (let nx = next_index c; d = descriptors c ! nx
      in if control d \<noteq> 0 \<or> status d \<noteq> 0 then (- EBUSY, c)
         else if rx_misaligned k channel buffer_addr blk_size then (- EINVAL, c)
         else if UINT32_MAX < blk_size
         then (- EINVAL, c\<lparr>descriptors := (descriptors c)[nx := submit_buffer k c buffer_addr d]\<rparr>)
         else (0, c\<lparr>descriptors := (descriptors c)
                       [nx := (submit_buffer k c buffer_addr d)
                                \<lparr>control := submit_control blk_size is_first is_last\<rparr>],
                    populated_desc_index := nx\<rparr>))"

text \<open>What a submission, and a chain of submissions, keeps of a channel: its shape, the
  links between descriptors, the completion cursor, and every descriptor that was not free.\<close>

definition submit_rel :: "dma_xilinx_axi_dma_channel \<Rightarrow> dma_xilinx_axi_dma_channel \<Rightarrow> bool" where
  "submit_rel c c' =
     (channel_wf c'
      \<and> num_descriptors c' = num_descriptors c
      \<and> descriptors_ptr c' = descriptors_ptr c
      \<and> map nxtdesc (descriptors c') = map nxtdesc (descriptors c)
      \<and> map nxtdesc_msb (descriptors c') = map nxtdesc_msb (descriptors c)
      \<and> completion_desc_index c' = completion_desc_index c
      \<and> completion_callback c' = completion_callback c
      \<and> keeps_pending c c')"

subsection \<open>The block chain, in the words of the specification\<close>

text \<open>
  Section 4.4: multi-block configuration replays the submission once per block of the
  chain, marking only the first block's \<open>is_first\<close> and only the last block's
  \<open>is_last\<close> true, aborting the chain on the first error.
\<close>

definition chain_flags :: "dma_block_config list \<Rightarrow> (dma_block_config \<times> bool \<times> bool) list" where
  "chain_flags blocks =
     map (\<lambda>i. (blocks ! i, i = 0, i = length blocks - 1)) [0..<length blocks]"

fun replay_chain ::
  "kconfig \<Rightarrow> dma_xilinx_axi_dma_data \<Rightarrow> nat \<Rightarrow> (dma_block_config \<times> bool \<times> bool) list
     \<Rightarrow> int \<times> dma_xilinx_axi_dma_data" where
  "replay_chain k s channel [] = (0, s)"
| "replay_chain k s channel ((b, is_first, is_last) # rest) =
     (let (r, s1) = dma_xilinx_axi_dma_transfer_block k s channel
                      (if channel = XILINX_AXI_DMA_TX_CHANNEL_NUM
                       then source_address b else dest_address b)
                      (block_size b) is_first is_last
      in if r \<noteq> 0 then (r, s1) else replay_chain k s1 channel rest)"

subsection \<open>Concrete states\<close>

definition zero_descriptor :: dma_xilinx_axi_dma_sg_descriptor where
  "zero_descriptor =
     \<lparr>nxtdesc = 0, nxtdesc_msb = 0, buffer_address = 0, buffer_address_msb = 0,
      reserved1 = 0, reserved2 = 0, control = 0, status = 0,
      app0 = 0, app1 = 0, app2 = 0, app3 = 0, app4 = 0\<rparr>"

text \<open>A channel in zero-initialised static storage, with its array of \<open>n\<close>
  descriptors.\<close>

definition static_channel :: "nat \<Rightarrow> dma_xilinx_axi_dma_channel" where
  "static_channel n =
     \<lparr>descriptors_ptr = 0, descriptors = replicate n zero_descriptor, num_descriptors = 0,
      populated_desc_index = 0, completion_desc_index = 0, channel_regs = 0, irq = 0,
      direction = MEMORY_TO_MEMORY, completion_callback = None,
      completion_callback_user_data = 0, last_rx_size = 0, sg_desc_app0 = 0,
      check_csum_in_isr = False\<rparr>"

definition example_kconfig :: kconfig where
  "example_kconfig =
     \<lparr>lock_irqs = CONFIG_DMA_XILINX_AXI_DMA_LOCK_CHANNEL_IRQ,
      CONFIG_DMA_XILINX_AXI_DMA_DISABLE_CACHE_WHEN_ACCESSING_SG_DESCRIPTORS = False,
      sys_cache_data_line_size = 64,
      CONFIG_DMA_64BIT = False,
      CONFIG_DMA_XILINX_AXI_DMA_INTERRUPT_THRESHOLD = 1,
      CONFIG_DMA_XILINX_AXI_DMA_INTERRUPT_TIMEOUT = 0,
      CONFIG_DMA_XILINX_AXI_DMA_SG_DESCRIPTOR_NUM_TX = 2,
      CONFIG_DMA_XILINX_AXI_DMA_SG_DESCRIPTOR_NUM_RX = 2\<rparr>"

definition example_config :: dma_xilinx_axi_dma_config where
  "example_config = \<lparr>reg = 0x40000000, cfg_channels = 2, irqn_tx = 5, irqn_rx = 6\<rparr>"

text \<open>The device before \<open>dma_xilinx_axi_dma_init\<close>; \<open>rd\<close> is what the hardware
  answers to register reads.\<close>

definition power_on_data :: "(nat \<Rightarrow> addr \<Rightarrow> u32) \<Rightarrow> dma_xilinx_axi_dma_data" where
  "power_on_data rd =
     \<lparr>channels = [static_channel 2, static_channel 2],
      descriptors_tx_addr = 0x10000000, descriptors_rx_addr = 0x10000080,
      irqs_enabled = {}, cpu_irqs_unlocked = True, stray_irq = (\<lambda>n. 0),
      hw_read = rd, reads_done = 0, trace = []\<rparr>"

text \<open>A channel with a ring of two zeroed descriptors, cursors as
  \<open>dma_xilinx_axi_dma_configure\<close> sets them, and a device with two such channels whose
  interrupt lines 5 and 6 are enabled.\<close>

definition example_channel :: "addr \<Rightarrow> addr \<Rightarrow> u32 \<Rightarrow> dma_channel_direction
    \<Rightarrow> dma_xilinx_axi_dma_channel" where
  "example_channel p r n d =
     \<lparr>descriptors_ptr = p, descriptors = [zero_descriptor, zero_descriptor],
      num_descriptors = 2, populated_desc_index = 1, completion_desc_index = 0,
      channel_regs = r, irq = n, direction = d, completion_callback = Some 1,
      completion_callback_user_data = 7, last_rx_size = 0, sg_desc_app0 = 0,
      check_csum_in_isr = False\<rparr>"

definition example_data :: dma_xilinx_axi_dma_data where
  "example_data =
     \<lparr>channels = [example_channel 0x10000000 0x40000000 5 MEMORY_TO_PERIPHERAL,
                  example_channel 0x10000080 0x40000030 6 PERIPHERAL_TO_MEMORY],
      descriptors_tx_addr = 0x10000000, descriptors_rx_addr = 0x10000080,
      irqs_enabled = {5, 6}, cpu_irqs_unlocked = True, stray_irq = (\<lambda>n. 0),
      hw_read = (\<lambda>n a. 0), reads_done = 0, trace = []\<rparr>"

text \<open>A TX ring of two descriptors, both submitted and not yet completed.\<close>

definition pending_descriptor :: dma_xilinx_axi_dma_sg_descriptor where
  "pending_descriptor = zero_descriptor\<lparr>buffer_address := 0x2000, control := 0x0C000064\<rparr>"

definition full_data :: dma_xilinx_axi_dma_data where
  "full_data =
     update_channel example_data 0
       (\<lambda>c. c\<lparr>descriptors := [pending_descriptor, pending_descriptor]\<rparr>)"

text \<open>A device whose RX channel inspects checksums and whose descriptor at the completion
  cursor the hardware has completed (100 bytes) with the sideband word \<open>v\<close> in APP2.\<close>

definition csum_data :: "u32 \<Rightarrow> dma_xilinx_axi_dma_data" where
  "csum_data v =
     update_channel example_data 1
       (\<lambda>c. c\<lparr>descriptors := [pending_descriptor\<lparr>status := 0x80000064, app2 := v\<rparr>,
                                zero_descriptor],
              populated_desc_index := 0,
              check_csum_in_isr := True\<rparr>)"

text \<open>A TX ring whose descriptor at the completion cursor the hardware has completed
  (100 bytes), on a channel whose callback is \<open>cb\<close>.\<close>

definition completed_data :: "nat option \<Rightarrow> dma_xilinx_axi_dma_data" where
  "completed_data cb =
     update_channel example_data 0
       (\<lambda>c. c\<lparr>descriptors := [pending_descriptor\<lparr>status := 0x80000064\<rparr>, zero_descriptor],
              populated_desc_index := 0,
              completion_callback := cb\<rparr>)"

text \<open>The TX ring after one submission of 100 bytes with both frame flags, and after
  one submission of no bytes with no frame flag.\<close>

definition submitted_data :: dma_xilinx_axi_dma_data where
  "submitted_data =
     update_channel example_data 0
       (\<lambda>c. c\<lparr>descriptors := [pending_descriptor, zero_descriptor],
              populated_desc_index := 0\<rparr>)"

definition zero_length_data :: dma_xilinx_axi_dma_data where
  "zero_length_data =
     update_channel example_data 0
       (\<lambda>c. c\<lparr>descriptors := [zero_descriptor\<lparr>buffer_address := 0x2000\<rparr>, zero_descriptor],
              populated_desc_index := 0\<rparr>)"

text \<open>An accepted configuration of the TX channel: a chain that starts with a block of
  100 bytes, no checksum offload, a callback.\<close>

definition example_block :: "nat \<Rightarrow> dma_block_config" where
  "example_block n =
     \<lparr>source_address = 0x2000, dest_address = 0x3000, block_size = n,
      source_addr_adj = DMA_ADDR_ADJ_INCREMENT, dest_addr_adj = DMA_ADDR_ADJ_INCREMENT\<rparr>"

definition example_dma_cfg :: "dma_block_config list \<Rightarrow> dma_config" where
  "example_dma_cfg blocks =
     \<lparr>head_block = example_block 100, next_blocks = blocks,
      channel_direction = MEMORY_TO_PERIPHERAL,
      linked_channel = XILINX_AXI_DMA_LINKED_CHANNEL_NO_CSUM_OFFLOAD,
      dma_callback = Some 1, user_data = 7\<rparr>"

section \<open>Properties\<close>

subsection \<open>The sweep terminates\<close>

lemma filter_update_less:
  assumes "i < length xs" "P (xs ! i)" "\<not> P y"
  shows "length (filter P (xs[i := y])) < length (filter P xs)"
  using assms
proof (induction xs arbitrary: i)
  case Nil
  then show ?case by simp
next
  case (Cons a xs)
  show ?case
  proof (cases i)
    case 0
    with Cons.prems show ?thesis by simp
  next
    case (Suc j)
    with Cons.prems have "length (filter P (xs[j := y])) < length (filter P xs)"
      by (intro Cons.IH) auto
    with Suc show ?thesis by simp
  qed
qed

lemma done_count_iteration:
  assumes "ch < length (channels s)"
    "completion_desc_index (channels s ! ch) < length (descriptors (channels s ! ch))"
    "status_done (status (descriptors (channels s ! ch) ! completion_desc_index (channels s ! ch)))"
  shows "done_count (clean_up_iteration s ch) ch < done_count s ch"
proof -
  have nd: "\<not> status_done 0" by (simp add: status_done_def)
  show ?thesis
    using assms
    by (auto simp: done_count_def clean_up_iteration_def Let_def update_channel_def
        update_descriptor_def nd split: option.splits intro!: filter_update_less)
qed

termination clean_up_loop
  by (relation "measure (\<lambda>(s, ch, p). done_count s ch)") (auto intro: done_count_iteration)

declare clean_up_loop.simps [simp del]

subsection \<open>Acquiring and releasing the interrupt exclusion\<close>

lemma channel_irq_irqs_update [simp]:
  "channel_irq (s\<lparr>irqs_enabled := E\<rparr>) n = channel_irq s n"
  "channel_irq (s\<lparr>cpu_irqs_unlocked := b\<rparr>) n = channel_irq s n"
  by (simp_all add: channel_irq_def)

lemma irqs_update_id: "E = irqs_enabled s \<Longrightarrow> s\<lparr>irqs_enabled := E\<rparr> = s"
  by simp

lemma lock_unlock_restores:
  "dma_xilinx_axi_dma_unlock_irq k (snd (dma_xilinx_axi_dma_lock_irq k s ch)) ch
     (fst (dma_xilinx_axi_dma_lock_irq k s ch)) = s"
proof (cases "lock_irqs k")
  case CONFIG_DMA_XILINX_AXI_DMA_LOCK_ALL_IRQS
  then show ?thesis
    by (simp add: dma_xilinx_axi_dma_unlock_irq_def dma_xilinx_axi_dma_lock_irq_def
        irq_lock_def irq_unlock_def)
next
  case CONFIG_DMA_XILINX_AXI_DMA_LOCK_DMA_IRQS
  have *: "((if a then 1 else 0) OR push_bit 1 (if b then 1 else 0) :: int) AND 1 \<noteq> 0 \<longleftrightarrow> a"
          "((if a then 1 else 0) OR push_bit 1 (if b then 1 else 0) :: int) AND 2 \<noteq> 0 \<longleftrightarrow> b" for a b
    by (cases a; cases b; simp)+
  show ?thesis
    using CONFIG_DMA_XILINX_AXI_DMA_LOCK_DMA_IRQS
    apply (simp add: dma_xilinx_axi_dma_unlock_irq_def dma_xilinx_axi_dma_lock_irq_def Let_def *
        irq_is_enabled_def irq_disable_def irq_enable_def del: push_bit_of_1)
    apply (intro conjI impI irqs_update_id)
       apply auto
    done
next
  case CONFIG_DMA_XILINX_AXI_DMA_LOCK_CHANNEL_IRQ
  then show ?thesis
    by (auto simp: dma_xilinx_axi_dma_unlock_irq_def dma_xilinx_axi_dma_lock_irq_def Let_def
        irq_is_enabled_def irq_disable_def irq_enable_def insert_absorb intro!: irqs_update_id)
qed

lemma lock_frame [simp]:
  "channels (snd (dma_xilinx_axi_dma_lock_irq k s ch)) = channels s"
  "trace (snd (dma_xilinx_axi_dma_lock_irq k s ch)) = trace s"
  "reads_done (snd (dma_xilinx_axi_dma_lock_irq k s ch)) = reads_done s"
  "hw_read (snd (dma_xilinx_axi_dma_lock_irq k s ch)) = hw_read s"
  "stray_irq (snd (dma_xilinx_axi_dma_lock_irq k s ch)) = stray_irq s"
  by (cases "lock_irqs k";
      simp add: dma_xilinx_axi_dma_lock_irq_def irq_lock_def irq_disable_def Let_def)+

lemma unlock_frame [simp]:
  "channels (dma_xilinx_axi_dma_unlock_irq k s ch key) = channels s"
  "trace (dma_xilinx_axi_dma_unlock_irq k s ch key) = trace s"
  "reads_done (dma_xilinx_axi_dma_unlock_irq k s ch key) = reads_done s"
  "hw_read (dma_xilinx_axi_dma_unlock_irq k s ch key) = hw_read s"
  "stray_irq (dma_xilinx_axi_dma_unlock_irq k s ch key) = stray_irq s"
  by (cases "lock_irqs k";
      simp add: dma_xilinx_axi_dma_unlock_irq_def irq_unlock_def irq_enable_def Let_def)+

text \<open>Releasing the exclusion looks only at the interrupt state and at the interrupt
  numbers of the channels.\<close>

lemma unlock_cong:
  assumes "irqs_enabled s' = irqs_enabled s" "cpu_irqs_unlocked s' = cpu_irqs_unlocked s"
    and "\<And>n. channel_irq s' n = channel_irq s n"
  shows "irqs_enabled (dma_xilinx_axi_dma_unlock_irq k s' ch key)
           = irqs_enabled (dma_xilinx_axi_dma_unlock_irq k s ch key)"
    and "cpu_irqs_unlocked (dma_xilinx_axi_dma_unlock_irq k s' ch key)
           = cpu_irqs_unlocked (dma_xilinx_axi_dma_unlock_irq k s ch key)"
  using assms
  by (cases "lock_irqs k";
      simp add: dma_xilinx_axi_dma_unlock_irq_def irq_unlock_def irq_enable_def Let_def)+

lemma channel_irq_update_channel:
  assumes "irq (f (channels s ! ch)) = irq (channels s ! ch)"
  shows "channel_irq (update_channel s ch f) n = channel_irq s n"
  using assms by (cases "n = ch") (auto simp: channel_irq_def update_channel_def)

lemma channel_irq_update_descriptor [simp]:
  "channel_irq (update_descriptor s ch i f) n = channel_irq s n"
  by (simp add: update_descriptor_def channel_irq_update_channel)

lemma update_channel_irq_fields [simp]:
  "irqs_enabled (update_channel s ch f) = irqs_enabled s"
  "cpu_irqs_unlocked (update_channel s ch f) = cpu_irqs_unlocked s"
  "irqs_enabled (update_descriptor s ch i g) = irqs_enabled s"
  "cpu_irqs_unlocked (update_descriptor s ch i g) = cpu_irqs_unlocked s"
  by (simp_all add: update_channel_def update_descriptor_def)

text \<open>If the state between acquiring and releasing keeps the interrupt state and the
  channels' interrupt numbers, releasing restores the interrupt state of entry.\<close>

lemma unlock_after_lock:
  assumes "irqs_enabled s' = irqs_enabled (snd (dma_xilinx_axi_dma_lock_irq k s ch))"
    and "cpu_irqs_unlocked s' = cpu_irqs_unlocked (snd (dma_xilinx_axi_dma_lock_irq k s ch))"
    and "\<And>n. channel_irq s' n = channel_irq (snd (dma_xilinx_axi_dma_lock_irq k s ch)) n"
  shows "irqs_enabled (dma_xilinx_axi_dma_unlock_irq k s' ch
            (fst (dma_xilinx_axi_dma_lock_irq k s ch))) = irqs_enabled s"
    and "cpu_irqs_unlocked (dma_xilinx_axi_dma_unlock_irq k s' ch
            (fst (dma_xilinx_axi_dma_lock_irq k s ch))) = cpu_irqs_unlocked s"
  using unlock_cong[OF assms, of k ch "fst (dma_xilinx_axi_dma_lock_irq k s ch)"]
  by (simp_all add: lock_unlock_restores)

subsection \<open>Busy rejection\<close>

text \<open>
  C2. In a well-formed channel whose slot at \<open>(populated_desc_index + 1) mod
  num_descriptors\<close> has a control or status field other than zero,
  \<open>dma_xilinx_axi_dma_transfer_block\<close> returns \<open>-EBUSY\<close> and the whole device state --
  both cursors, every descriptor, the interrupt state -- is what it was on entry.
\<close>

theorem transfer_block_busy:
  assumes "channel < length (channels s)" and "channel_wf (channels s ! channel)"
    and "control (descriptors (channels s ! channel)
            ! ((populated_desc_index (channels s ! channel) + 1)
                 mod num_descriptors (channels s ! channel))) \<noteq> 0
       \<or> status (descriptors (channels s ! channel)
            ! ((populated_desc_index (channels s ! channel) + 1)
                 mod num_descriptors (channels s ! channel))) \<noteq> 0"
  shows "dma_xilinx_axi_dma_transfer_block k s channel buffer_addr blk_size is_first is_last
           = (- EBUSY, s)"
proof -
  let ?c = "channels s ! channel"
  have next_eq: "(if num_descriptors ?c \<le> populated_desc_index ?c + 1 then 0
                  else populated_desc_index ?c + 1)
                 = (populated_desc_index ?c + 1) mod num_descriptors ?c"
    using assms(2) by (auto simp: channel_wf_def le_Suc_eq)
  obtain key s1 where l: "dma_xilinx_axi_dma_lock_irq k s channel = (key, s1)"
    by (cases "dma_xilinx_axi_dma_lock_irq k s channel")
  have c1: "channels s1 = channels s"
    using lock_frame(1)[of k s channel] l by simp
  have u: "dma_xilinx_axi_dma_unlock_irq k s1 channel key = s"
    using lock_unlock_restores[of k s channel] l by simp
  have busy: "control (descriptors ?c ! (if num_descriptors ?c \<le> populated_desc_index ?c + 1
                  then 0 else populated_desc_index ?c + 1)) \<noteq> 0
       \<or> status (descriptors ?c ! (if num_descriptors ?c \<le> populated_desc_index ?c + 1
                  then 0 else populated_desc_index ?c + 1)) \<noteq> 0"
    using assms(3) unfolding next_eq .
  show ?thesis
    unfolding dma_xilinx_axi_dma_transfer_block_def l
    apply (simp only: Let_def prod.case c1)
    apply (subst if_P[OF busy])
    apply (simp only: u)
    done
qed

lemma full_data_tx:
  "channels full_data ! 0
     = (example_channel 0x10000000 0x40000000 5 MEMORY_TO_PERIPHERAL)
         \<lparr>descriptors := [pending_descriptor, pending_descriptor]\<rparr>"
  "length (channels full_data) = 2"
  by (simp_all add: full_data_def example_data_def update_channel_def)

theorem transfer_block_busy_witness:
  "channel_wf (channels full_data ! 0)
   \<and> control (descriptors (channels full_data ! 0) ! 0) \<noteq> 0
   \<and> dma_xilinx_axi_dma_transfer_block example_kconfig full_data 0 0x3000 100 True True
       = (- EBUSY, full_data)"
proof -
  have a: "0 < length (channels full_data)"
    by (simp add: full_data_tx)
  have b: "channel_wf (channels full_data ! 0)"
    by (simp add: full_data_tx channel_wf_def example_channel_def)
  have c: "control (descriptors (channels full_data ! 0) ! 0) \<noteq> 0"
    by (simp add: full_data_tx example_channel_def pending_descriptor_def zero_descriptor_def)
  have c': "control (descriptors (channels full_data ! 0)
              ! ((populated_desc_index (channels full_data ! 0) + 1)
                   mod num_descriptors (channels full_data ! 0))) \<noteq> 0"
    using c by (simp add: full_data_tx example_channel_def)
  show ?thesis
    using transfer_block_busy[OF a b disjI1[OF c']] b c by simp
qed

subsection \<open>What a submission does to its channel\<close>

lemma next_index_mod:
  "channel_wf c \<Longrightarrow> next_index c = (populated_desc_index c + 1) mod num_descriptors c"
  by (auto simp: channel_wf_def next_index_def le_Suc_eq)

lemma next_index_less: "channel_wf c \<Longrightarrow> next_index c < length (descriptors c)"
  by (auto simp: channel_wf_def next_index_def)

lemma channels_update_channel [simp]:
  "channels (update_channel s ch f) = (channels s)[ch := f (channels s ! ch)]"
  by (simp add: update_channel_def)

lemma channels_update_descriptor [simp]:
  "channels (update_descriptor s ch i g)
     = (channels s)[ch := (channels s ! ch)\<lparr>descriptors :=
          (descriptors (channels s ! ch))[i := g (descriptors (channels s ! ch) ! i)]\<rparr>]"
  by (simp add: update_descriptor_def)

lemma transfer_block_view:
  assumes "ch < length (channels s)" and "channel_wf (channels s ! ch)"
  shows "fst (dma_xilinx_axi_dma_transfer_block k s ch a b f l)
           = fst (submit_view k ch (channels s ! ch) a b f l)"
    and "channels (snd (dma_xilinx_axi_dma_transfer_block k s ch a b f l))
           = (channels s)[ch := snd (submit_view k ch (channels s ! ch) a b f l)]"
proof -
  let ?c = "channels s ! ch"
  obtain key s1 where lk: "dma_xilinx_axi_dma_lock_irq k s ch = (key, s1)"
    by (cases "dma_xilinx_axi_dma_lock_irq k s ch")
  have c1: "channels s1 = channels s"
    using lock_frame(1)[of k s ch] lk by simp
  have nx: "next_index ?c < length (descriptors ?c)"
    using assms(2) by (rule next_index_less)
  have both: "fst (dma_xilinx_axi_dma_transfer_block k s ch a b f l)
           = fst (submit_view k ch ?c a b f l)
     \<and> channels (snd (dma_xilinx_axi_dma_transfer_block k s ch a b f l))
           = (channels s)[ch := snd (submit_view k ch ?c a b f l)]"
    unfolding dma_xilinx_axi_dma_transfer_block_def lk submit_view_def
    apply (simp only: Let_def prod.case c1 next_index_def[symmetric] rx_misaligned_def[symmetric])
    using assms(1) nx
    apply (cases "control (descriptors ?c ! next_index ?c) \<noteq> 0 \<or> status (descriptors ?c ! next_index ?c) \<noteq> 0")
     apply (simp add: c1)
    apply (cases "rx_misaligned k ch a b")
     apply (simp add: c1)
    apply (cases "UINT32_MAX < b")
     apply (simp add: c1 submit_buffer_def)
    apply (cases f; cases l; simp add: c1 submit_buffer_def submit_control_def)
    done
  from both show "fst (dma_xilinx_axi_dma_transfer_block k s ch a b f l)
           = fst (submit_view k ch (channels s ! ch) a b f l)" by simp
  from both show "channels (snd (dma_xilinx_axi_dma_transfer_block k s ch a b f l))
           = (channels s)[ch := snd (submit_view k ch (channels s ! ch) a b f l)]" by simp
qed


lemma example_data_channels:
  "length (channels example_data) = 2"
  "channels example_data ! 0 = example_channel 0x10000000 0x40000000 5 MEMORY_TO_PERIPHERAL"
  "channels example_data ! Suc 0 = example_channel 0x10000080 0x40000030 6 PERIPHERAL_TO_MEMORY"
  by (simp_all add: example_data_def)

lemma example_channel_wf: "channel_wf (example_channel p r n d)"
  by (simp add: channel_wf_def example_channel_def)

subsection \<open>Blocks longer than the 26-bit length field\<close>

text \<open>
  C3 says that a block longer than \<open>2^26 - 1\<close> bytes is refused. The function compares
  \<open>block_size\<close> with \<open>UINT32_MAX\<close> instead: on a well-formed channel whose next slot is
  free, a block of at least \<open>2^26\<close> and at most \<open>2^32 - 1\<close> bytes is accepted, the producer
  cursor advances, and the control word is the size itself, whose bits 26 and up land in
  the end-of-frame, start-of-frame and reserved bits.
\<close>

theorem transfer_block_oversized_accepted:
  assumes "ch < length (channels s)" and "channel_wf (channels s ! ch)"
    and "control (descriptors (channels s ! ch) ! next_index (channels s ! ch)) = 0"
    and "status (descriptors (channels s ! ch) ! next_index (channels s ! ch)) = 0"
    and "\<not> rx_misaligned k ch a b"
    and "2 ^ 26 \<le> b" and "b \<le> UINT32_MAX"
  shows "fst (dma_xilinx_axi_dma_transfer_block k s ch a b f l) = 0
    \<and> populated_desc_index (channels (snd (dma_xilinx_axi_dma_transfer_block k s ch a b f l)) ! ch)
        = (populated_desc_index (channels s ! ch) + 1) mod num_descriptors (channels s ! ch)
    \<and> control (descriptors (channels (snd (dma_xilinx_axi_dma_transfer_block k s ch a b f l)) ! ch)
                 ! next_index (channels s ! ch))
        = submit_control b f l"
  using assms next_index_less[OF assms(2)] next_index_mod[OF assms(2)]
  by (simp add: transfer_block_view submit_view_def Let_def)

theorem transfer_block_oversized_accepted_witness:
  "fst (dma_xilinx_axi_dma_transfer_block example_kconfig example_data 0 0x3000 67108864 False False) = 0
   \<and> populated_desc_index (channels (snd (dma_xilinx_axi_dma_transfer_block example_kconfig
         example_data 0 0x3000 67108864 False False)) ! 0) = 0
   \<and> control (descriptors (channels (snd (dma_xilinx_axi_dma_transfer_block example_kconfig
         example_data 0 0x3000 67108864 False False)) ! 0) ! 0)
       = XILINX_AXI_DMA_SG_DESCRIPTOR_CTRL_EOF_MASK"
proof -
  have a: "0 < length (channels example_data)" by (simp add: example_data_channels)
  have b: "channel_wf (channels example_data ! 0)"
    by (simp add: example_data_channels example_channel_wf)
  have n: "next_index (channels example_data ! 0) = 0"
    by (simp add: example_data_channels next_index_def example_channel_def)
  have c: "control (descriptors (channels example_data ! 0) ! next_index (channels example_data ! 0)) = 0"
    and d: "status (descriptors (channels example_data ! 0) ! next_index (channels example_data ! 0)) = 0"
    unfolding n by (simp_all add: example_data_channels example_channel_def zero_descriptor_def)
  have e: "\<not> rx_misaligned example_kconfig 0 0x3000 67108864"
    by (simp add: rx_misaligned_def XILINX_AXI_DMA_TX_CHANNEL_NUM_def)
  have g: "(2::nat) ^ 26 \<le> 67108864" "(67108864::nat) \<le> UINT32_MAX"
    by (simp_all add: UINT32_MAX_def)
  have pm: "(populated_desc_index (channels example_data ! 0) + 1)
              mod num_descriptors (channels example_data ! 0) = 0"
    by (simp add: example_data_channels example_channel_def)
  have sc: "submit_control 67108864 False False = XILINX_AXI_DMA_SG_DESCRIPTOR_CTRL_EOF_MASK"
    by (simp add: submit_control_def XILINX_AXI_DMA_SG_DESCRIPTOR_CTRL_EOF_MASK_def)
  show ?thesis
    using transfer_block_oversized_accepted[OF a b c d e g, of False False]
    unfolding n pm sc by simp
qed

subsection \<open>The exclusion is released on every path\<close>

lemma write_reg_frame [simp]:
  "irqs_enabled (dma_xilinx_axi_dma_write_reg s c r v) = irqs_enabled s"
  "cpu_irqs_unlocked (dma_xilinx_axi_dma_write_reg s c r v) = cpu_irqs_unlocked s"
  "channels (dma_xilinx_axi_dma_write_reg s c r v) = channels s"
  "channel_irq (dma_xilinx_axi_dma_write_reg s c r v) n = channel_irq s n"
  by (simp_all add: dma_xilinx_axi_dma_write_reg_def channel_irq_def)

lemma read_reg_frame [simp]:
  "irqs_enabled (snd (dma_xilinx_axi_dma_read_reg s c r)) = irqs_enabled s"
  "cpu_irqs_unlocked (snd (dma_xilinx_axi_dma_read_reg s c r)) = cpu_irqs_unlocked s"
  "channels (snd (dma_xilinx_axi_dma_read_reg s c r)) = channels s"
  "channel_irq (snd (dma_xilinx_axi_dma_read_reg s c r)) n = channel_irq s n"
  by (simp_all add: dma_xilinx_axi_dma_read_reg_def channel_irq_def)

lemma transfer_block_releases:
  "irqs_enabled (snd (dma_xilinx_axi_dma_transfer_block k s ch a b f l)) = irqs_enabled s
   \<and> cpu_irqs_unlocked (snd (dma_xilinx_axi_dma_transfer_block k s ch a b f l)) = cpu_irqs_unlocked s"
proof -
  obtain key s1 where lk: "dma_xilinx_axi_dma_lock_irq k s ch = (key, s1)"
    by (cases "dma_xilinx_axi_dma_lock_irq k s ch")
  have r: "irqs_enabled (dma_xilinx_axi_dma_unlock_irq k s' ch key) = irqs_enabled s
         \<and> cpu_irqs_unlocked (dma_xilinx_axi_dma_unlock_irq k s' ch key) = cpu_irqs_unlocked s"
    if "irqs_enabled s' = irqs_enabled s1" "cpu_irqs_unlocked s' = cpu_irqs_unlocked s1"
      "\<And>n. channel_irq s' n = channel_irq s1 n" for s'
    using unlock_after_lock[of s' k s ch] that lk by simp
  show ?thesis
    unfolding dma_xilinx_axi_dma_transfer_block_def lk
    by (simp add: Let_def r channel_irq_update_channel del: channels_update_channel channels_update_descriptor)
qed

lemma start_releases:
  "irqs_enabled (snd (dma_xilinx_axi_dma_start k cfg s ch)) = irqs_enabled s
   \<and> cpu_irqs_unlocked (snd (dma_xilinx_axi_dma_start k cfg s ch)) = cpu_irqs_unlocked s"
proof -
  obtain key s1 where lk: "dma_xilinx_axi_dma_lock_irq k s ch = (key, s1)"
    by (cases "dma_xilinx_axi_dma_lock_irq k s ch")
  have r: "irqs_enabled (dma_xilinx_axi_dma_unlock_irq k s' ch key) = irqs_enabled s
         \<and> cpu_irqs_unlocked (dma_xilinx_axi_dma_unlock_irq k s' ch key) = cpu_irqs_unlocked s"
    if "irqs_enabled s' = irqs_enabled s1" "cpu_irqs_unlocked s' = cpu_irqs_unlocked s1"
      "\<And>n. channel_irq s' n = channel_irq s1 n" for s'
    using unlock_after_lock[of s' k s ch] that lk by simp
  obtain v s2 where rd: "dma_xilinx_axi_dma_read_reg s1 (channels s1 ! ch) XILINX_AXI_DMA_REG_DMASR = (v, s2)"
    by (cases "dma_xilinx_axi_dma_read_reg s1 (channels s1 ! ch) XILINX_AXI_DMA_REG_DMASR")
  have s2: "irqs_enabled s2 = irqs_enabled s1" "cpu_irqs_unlocked s2 = cpu_irqs_unlocked s1"
    "\<And>n. channel_irq s2 n = channel_irq s1 n"
    using read_reg_frame[of s1 "channels s1 ! ch" XILINX_AXI_DMA_REG_DMASR] rd by simp_all
  show ?thesis
    unfolding dma_xilinx_axi_dma_start_def lk
    by (simp add: Let_def rd r s2)
qed


text \<open>
  C10. Whatever path \<open>dma_xilinx_axi_dma_transfer_block\<close> and
  \<open>dma_xilinx_axi_dma_start\<close> take to return, under each of the three locking
  policies, the set of enabled interrupt lines and the CPU's interrupt mask are on return
  what they were on entry: every acquisition is paired with a release. The witness takes
  the four return paths of the submission and the two of \<open>start\<close> with both lines
  enabled on entry.
\<close>

theorem exclusion_released:
  "irqs_enabled (snd (dma_xilinx_axi_dma_transfer_block k s ch a b f l)) = irqs_enabled s
   \<and> cpu_irqs_unlocked (snd (dma_xilinx_axi_dma_transfer_block k s ch a b f l))
       = cpu_irqs_unlocked s
   \<and> irqs_enabled (snd (dma_xilinx_axi_dma_start k cfg s ch)) = irqs_enabled s
   \<and> cpu_irqs_unlocked (snd (dma_xilinx_axi_dma_start k cfg s ch)) = cpu_irqs_unlocked s"
  using transfer_block_releases[of k s ch a b f l] start_releases[of k cfg s ch] by simp

lemma example_paths:
  "fst (dma_xilinx_axi_dma_transfer_block example_kconfig full_data 0 0x3000 100 True True) = - EBUSY"
  "fst (dma_xilinx_axi_dma_transfer_block
          (example_kconfig\<lparr>CONFIG_DMA_XILINX_AXI_DMA_DISABLE_CACHE_WHEN_ACCESSING_SG_DESCRIPTORS := True\<rparr>)
          example_data 1 0x3001 128 True True) = - EINVAL"
  "fst (dma_xilinx_axi_dma_transfer_block example_kconfig example_data 0 0x3000 4294967296 True True)
     = - EINVAL"
  "fst (dma_xilinx_axi_dma_transfer_block example_kconfig example_data 0 0x3000 100 True True) = 0"
  "fst (dma_xilinx_axi_dma_start example_kconfig example_config example_data 2) = - EINVAL"
  "fst (dma_xilinx_axi_dma_start example_kconfig example_config example_data 0) = 0"
proof -
  have wf: "channel_wf (channels full_data ! 0)" "channel_wf (channels example_data ! 0)"
    "channel_wf (channels example_data ! 1)"
    by (simp_all add: full_data_tx example_data_channels example_channel_wf channel_wf_def
        example_channel_def)
  have len: "0 < length (channels full_data)" "0 < length (channels example_data)"
    "1 < length (channels example_data)"
    by (simp_all add: full_data_tx example_data_channels)
  show "fst (dma_xilinx_axi_dma_transfer_block example_kconfig full_data 0 0x3000 100 True True) = - EBUSY"
    by (subst transfer_block_view(1)[OF len(1) wf(1)])
       (simp add: submit_view_def full_data_tx Let_def
        next_index_def example_channel_def pending_descriptor_def zero_descriptor_def)
  show "fst (dma_xilinx_axi_dma_transfer_block
          (example_kconfig\<lparr>CONFIG_DMA_XILINX_AXI_DMA_DISABLE_CACHE_WHEN_ACCESSING_SG_DESCRIPTORS := True\<rparr>)
          example_data 1 0x3001 128 True True) = - EINVAL"
    by (subst transfer_block_view(1)[OF len(3) wf(3)])
       (simp add: submit_view_def example_data_channels Let_def
        next_index_def example_channel_def zero_descriptor_def rx_misaligned_def example_kconfig_def
        XILINX_AXI_DMA_TX_CHANNEL_NUM_def)
  show "fst (dma_xilinx_axi_dma_transfer_block example_kconfig example_data 0 0x3000 4294967296 True True)
     = - EINVAL"
    by (subst transfer_block_view(1)[OF len(2) wf(2)])
       (simp add: submit_view_def example_data_channels Let_def
        next_index_def example_channel_def zero_descriptor_def rx_misaligned_def
        XILINX_AXI_DMA_TX_CHANNEL_NUM_def UINT32_MAX_def)
  show "fst (dma_xilinx_axi_dma_transfer_block example_kconfig example_data 0 0x3000 100 True True) = 0"
    by (subst transfer_block_view(1)[OF len(2) wf(2)])
       (simp add: submit_view_def example_data_channels Let_def
        next_index_def example_channel_def zero_descriptor_def rx_misaligned_def
        XILINX_AXI_DMA_TX_CHANNEL_NUM_def UINT32_MAX_def)
  show "fst (dma_xilinx_axi_dma_start example_kconfig example_config example_data 2) = - EINVAL"
    by (simp add: dma_xilinx_axi_dma_start_def split_def Let_def example_config_def)
  show "fst (dma_xilinx_axi_dma_start example_kconfig example_config example_data 0) = 0"
    by (simp add: dma_xilinx_axi_dma_start_def split_def Let_def example_config_def)
qed

theorem exclusion_released_witness:
  "irqs_enabled example_data = {5, 6} \<and> irqs_enabled full_data = {5, 6}
   \<and> fst (dma_xilinx_axi_dma_transfer_block example_kconfig full_data 0 0x3000 100 True True) = - EBUSY
   \<and> irqs_enabled (snd (dma_xilinx_axi_dma_transfer_block example_kconfig full_data 0 0x3000 100
        True True)) = {5, 6}
   \<and> fst (dma_xilinx_axi_dma_transfer_block
          (example_kconfig\<lparr>CONFIG_DMA_XILINX_AXI_DMA_DISABLE_CACHE_WHEN_ACCESSING_SG_DESCRIPTORS := True\<rparr>)
          example_data 1 0x3001 128 True True) = - EINVAL
   \<and> irqs_enabled (snd (dma_xilinx_axi_dma_transfer_block
          (example_kconfig\<lparr>CONFIG_DMA_XILINX_AXI_DMA_DISABLE_CACHE_WHEN_ACCESSING_SG_DESCRIPTORS := True\<rparr>)
          example_data 1 0x3001 128 True True)) = {5, 6}
   \<and> fst (dma_xilinx_axi_dma_transfer_block example_kconfig example_data 0 0x3000 4294967296
          True True) = - EINVAL
   \<and> irqs_enabled (snd (dma_xilinx_axi_dma_transfer_block example_kconfig example_data 0 0x3000
          4294967296 True True)) = {5, 6}
   \<and> fst (dma_xilinx_axi_dma_transfer_block example_kconfig example_data 0 0x3000 100 True True) = 0
   \<and> irqs_enabled (snd (dma_xilinx_axi_dma_transfer_block example_kconfig example_data 0 0x3000 100
          True True)) = {5, 6}
   \<and> fst (dma_xilinx_axi_dma_start example_kconfig example_config example_data 2) = - EINVAL
   \<and> irqs_enabled (snd (dma_xilinx_axi_dma_start example_kconfig example_config example_data 2))
       = {5, 6}
   \<and> fst (dma_xilinx_axi_dma_start example_kconfig example_config example_data 0) = 0
   \<and> irqs_enabled (snd (dma_xilinx_axi_dma_start example_kconfig example_config example_data 0))
       = {5, 6}"
proof -
  have e: "irqs_enabled example_data = {5, 6}" "irqs_enabled full_data = {5, 6}"
    by (simp_all add: example_data_def full_data_def update_channel_def)
  have r1: "irqs_enabled (snd (dma_xilinx_axi_dma_transfer_block example_kconfig full_data 0 0x3000 100
        True True)) = {5, 6}"
    using exclusion_released[of example_kconfig full_data 0 "0x3000" 100 True True example_config] e
    by simp
  have r2: "irqs_enabled (snd (dma_xilinx_axi_dma_transfer_block
          (example_kconfig\<lparr>CONFIG_DMA_XILINX_AXI_DMA_DISABLE_CACHE_WHEN_ACCESSING_SG_DESCRIPTORS := True\<rparr>)
          example_data 1 0x3001 128 True True)) = {5, 6}"
    using exclusion_released[of "example_kconfig\<lparr>CONFIG_DMA_XILINX_AXI_DMA_DISABLE_CACHE_WHEN_ACCESSING_SG_DESCRIPTORS := True\<rparr>"
            example_data 1 "0x3001" 128 True True example_config] e
    by simp
  have r3: "irqs_enabled (snd (dma_xilinx_axi_dma_transfer_block example_kconfig example_data 0 0x3000
          4294967296 True True)) = {5, 6}"
    using exclusion_released[of example_kconfig example_data 0 "0x3000" 4294967296 True True
            example_config] e
    by simp
  have r4: "irqs_enabled (snd (dma_xilinx_axi_dma_transfer_block example_kconfig example_data 0 0x3000 100
          True True)) = {5, 6}"
    and r6: "irqs_enabled (snd (dma_xilinx_axi_dma_start example_kconfig example_config example_data 0))
       = {5, 6}"
    using exclusion_released[of example_kconfig example_data 0 "0x3000" 100 True True example_config] e
    by simp_all
  have r5: "irqs_enabled (snd (dma_xilinx_axi_dma_start example_kconfig example_config example_data 2))
       = {5, 6}"
    using exclusion_released[of example_kconfig example_data 2 "0x3000" 100 True True example_config] e
    by simp
  show ?thesis
    by (intro conjI) (rule e r1 r2 r3 r4 r5 r6 example_paths)+
qed

subsection \<open>The result handed to the callback\<close>

lemma csum_patterns:
  "csum_tcp_err 0x38" "csum_udp_err 0x38" "csum_ip_err 0x38" "\<not> csum_fcs_err 0x38"
  "csum_udp_err 0x30" "\<not> csum_tcp_err 0x30" "\<not> csum_ip_err 0x30" "\<not> csum_fcs_err 0x30"
  by (simp_all add: csum_tcp_err_def csum_udp_err_def csum_ip_err_def csum_fcs_err_def
      XILINX_AXI_DMA_SG_DESCRIPTOR_APP2_TCP_ERR_MASK_def
      XILINX_AXI_DMA_SG_DESCRIPTOR_APP2_UDP_ERR_MASK_def
      XILINX_AXI_DMA_SG_DESCRIPTOR_APP2_IP_ERR_MASK_def
      XILINX_AXI_DMA_SG_DESCRIPTOR_APP2_FCS_ERR_MASK_def)

lemma descriptor_retval_csum:
  "descriptor_retval True st 0x38 = - EFAULT" "descriptor_retval True st 0x30 = - EFAULT"
  by (simp_all add: descriptor_retval_def Let_def csum_patterns)

lemma trace_update_channel [simp]:
  "trace (update_channel s ch f) = trace s"
  "trace (update_descriptor s ch i g) = trace s"
  by (simp_all add: update_channel_def update_descriptor_def)

lemma clean_up_iteration_trace:
  "trace (clean_up_iteration s ch)
     = trace s @ slot_events (channels s ! ch) ch (completion_desc_index (channels s ! ch))"
  by (simp add: clean_up_iteration_def slot_events_def Let_def split: option.splits)

subsection \<open>Initialisation and the soft reset\<close>

lemma soft_reset_poll_frame:
  "channels (snd (soft_reset_poll s c n)) = channels s
   \<and> irqs_enabled (snd (soft_reset_poll s c n)) = irqs_enabled s
   \<and> cpu_irqs_unlocked (snd (soft_reset_poll s c n)) = cpu_irqs_unlocked s
   \<and> hw_read (snd (soft_reset_poll s c n)) = hw_read s"
  by (induction n arbitrary: s)
     (simp_all add: dma_xilinx_axi_dma_read_reg_def Let_def)

lemma soft_reset_poll_timeout:
  assumes "\<forall>i<n. hw_read s (reads_done s + i) (channel_regs c + reg_offset XILINX_AXI_DMA_REG_DMACR)
                    AND XILINX_AXI_DMA_REGS_DMACR_RESET \<noteq> 0"
  shows "soft_reset_poll s c n
           = (False, s\<lparr>reads_done := reads_done s + n,
                       trace := trace s @ replicate n (EV_MSLEEP 1)\<rparr>)"
  using assms
proof (induction n arbitrary: s)
  case 0
  then show ?case by simp
next
  case (Suc n)
  let ?s1 = "s\<lparr>reads_done := reads_done s + 1, trace := trace s @ [EV_MSLEEP 1]\<rparr>"
  have first: "hw_read s (reads_done s) (channel_regs c + reg_offset XILINX_AXI_DMA_REG_DMACR)
                 AND XILINX_AXI_DMA_REGS_DMACR_RESET \<noteq> 0"
    using Suc.prems by (auto dest: spec[where x=0])
  have rest: "\<forall>i<n. hw_read ?s1 (reads_done ?s1 + i) (channel_regs c + reg_offset XILINX_AXI_DMA_REG_DMACR)
                    AND XILINX_AXI_DMA_REGS_DMACR_RESET \<noteq> 0"
  proof (intro allI impI)
    fix i assume "i < n"
    then have "Suc i < Suc n" by simp
    with Suc.prems have "hw_read s (reads_done s + Suc i) (channel_regs c + reg_offset XILINX_AXI_DMA_REG_DMACR)
                    AND XILINX_AXI_DMA_REGS_DMACR_RESET \<noteq> 0" by blast
    then show "hw_read ?s1 (reads_done ?s1 + i) (channel_regs c + reg_offset XILINX_AXI_DMA_REG_DMACR)
                    AND XILINX_AXI_DMA_REGS_DMACR_RESET \<noteq> 0" by simp
  qed
  have "soft_reset_poll s c (Suc n) = soft_reset_poll ?s1 c n"
    using first by (simp add: dma_xilinx_axi_dma_read_reg_def)
  also have "\<dots> = (False, ?s1\<lparr>reads_done := reads_done ?s1 + n,
                       trace := trace ?s1 @ replicate n (EV_MSLEEP 1)\<rparr>)"
    by (rule Suc.IH[OF rest])
  also have "\<dots> = (False, s\<lparr>reads_done := reads_done s + Suc n,
                       trace := trace s @ replicate (Suc n) (EV_MSLEEP 1)\<rparr>)"
    by (simp add: replicate_app_Cons_same)
  finally show ?case .
qed

lemma soft_reset_poll_clears:
  assumes "\<exists>i<n. hw_read s (reads_done s + i) (channel_regs c + reg_offset XILINX_AXI_DMA_REG_DMACR)
                    AND XILINX_AXI_DMA_REGS_DMACR_RESET = 0"
  shows "fst (soft_reset_poll s c n)"
  using assms
proof (induction n arbitrary: s)
  case 0
  then show ?case by simp
next
  case (Suc n)
  let ?s1 = "s\<lparr>reads_done := reads_done s + 1, trace := trace s @ [EV_MSLEEP 1]\<rparr>"
  show ?case
  proof (cases "hw_read s (reads_done s) (channel_regs c + reg_offset XILINX_AXI_DMA_REG_DMACR)
                 AND XILINX_AXI_DMA_REGS_DMACR_RESET = 0")
    case True
    then show ?thesis by (simp add: dma_xilinx_axi_dma_read_reg_def)
  next
    case False
    from Suc.prems obtain i where i: "i < Suc n"
      "hw_read s (reads_done s + i) (channel_regs c + reg_offset XILINX_AXI_DMA_REG_DMACR)
                    AND XILINX_AXI_DMA_REGS_DMACR_RESET = 0" by blast
    with False have "i \<noteq> 0" by (cases i) auto
    then obtain j where j: "i = Suc j" by (cases i) auto
    with i have "\<exists>i<n. hw_read ?s1 (reads_done ?s1 + i) (channel_regs c + reg_offset XILINX_AXI_DMA_REG_DMACR)
                    AND XILINX_AXI_DMA_REGS_DMACR_RESET = 0"
      by (intro exI[where x=j]) simp
    from Suc.IH[OF this] False show ?thesis
      by (simp add: dma_xilinx_axi_dma_read_reg_def)
  qed
qed


text \<open>The state in which \<open>dma_xilinx_axi_dma_init\<close> starts to poll.\<close>

lemma init_unfold:
  assumes "cfg_channels cfg = XILINX_AXI_DMA_NUM_CHANNELS" and "length (channels s) = 2"
  obtains s9 where
    "dma_xilinx_axi_dma_init k cfg s
       = (let (reset, s10) = soft_reset_poll s9 (channels s9 ! XILINX_AXI_DMA_RX_CHANNEL_NUM) 1000
          in if \<not> reset then (- EIO, s10) else (0, irq_configure cfg s10))"
    and "hw_read s9 = hw_read s" and "reads_done s9 = reads_done s"
    and "irqs_enabled s9 = irqs_enabled s"
    and "trace s9 = trace s @ [EV_REG_WRITE (reg cfg + XILINX_AXI_DMA_S2MM_REG_OFFSET
                                   + reg_offset XILINX_AXI_DMA_REG_DMACR)
                                 XILINX_AXI_DMA_REGS_DMACR_RESET]"
    and "length (channels s9) = 2"
    and "channel_regs (channels s9 ! XILINX_AXI_DMA_RX_CHANNEL_NUM)
           = reg cfg + XILINX_AXI_DMA_S2MM_REG_OFFSET"
    and "map irq (channels s9) = map irq (channels s)"
    and "direction (channels s9 ! XILINX_AXI_DMA_TX_CHANNEL_NUM) = PERIPHERAL_TO_MEMORY"
    and "direction (channels s9 ! XILINX_AXI_DMA_RX_CHANNEL_NUM)
           = direction (channels s ! XILINX_AXI_DMA_RX_CHANNEL_NUM)"
proof -
  obtain c0 c1 where cs: "channels s = [c0, c1]"
    using assms(2) by (cases "channels s"; cases "tl (channels s)") auto
  show thesis
    by (rule that[of "dma_xilinx_axi_dma_write_reg
            (s\<lparr>channels :=
                 [c0\<lparr>descriptors_ptr := descriptors_tx_addr s,
                      num_descriptors := CONFIG_DMA_XILINX_AXI_DMA_SG_DESCRIPTOR_NUM_TX k,
                      channel_regs := reg cfg + XILINX_AXI_DMA_MM2S_REG_OFFSET,
                      direction := PERIPHERAL_TO_MEMORY\<rparr>,
                  c1\<lparr>descriptors_ptr := descriptors_rx_addr s,
                      num_descriptors := CONFIG_DMA_XILINX_AXI_DMA_SG_DESCRIPTOR_NUM_RX k,
                      channel_regs := reg cfg + XILINX_AXI_DMA_S2MM_REG_OFFSET\<rparr>]\<rparr>)
            (c1\<lparr>descriptors_ptr := descriptors_rx_addr s,
                      num_descriptors := CONFIG_DMA_XILINX_AXI_DMA_SG_DESCRIPTOR_NUM_RX k,
                      channel_regs := reg cfg + XILINX_AXI_DMA_S2MM_REG_OFFSET\<rparr>)
            XILINX_AXI_DMA_REG_DMACR XILINX_AXI_DMA_REGS_DMACR_RESET"])
       (simp_all add: dma_xilinx_axi_dma_init_def assms(1) cs Let_def update_channel_def
          XILINX_AXI_DMA_TX_CHANNEL_NUM_def XILINX_AXI_DMA_RX_CHANNEL_NUM_def
          dma_xilinx_axi_dma_write_reg_def)
qed

lemma irq_configure_effect:
  assumes "length (channels s) = 2"
  shows "irqn_tx cfg \<in> irqs_enabled (irq_configure cfg s)"
    and "irqn_rx cfg \<in> irqs_enabled (irq_configure cfg s)"
    and "map irq (channels (irq_configure cfg s)) = [irqn_tx cfg, irqn_rx cfg]"
    and "map direction (channels (irq_configure cfg s)) = map direction (channels s)"
proof -
  obtain c0 c1 where cs: "channels s = [c0, c1]"
    using assms by (cases "channels s"; cases "tl (channels s)") auto
  show "irqn_tx cfg \<in> irqs_enabled (irq_configure cfg s)"
    and "irqn_rx cfg \<in> irqs_enabled (irq_configure cfg s)"
    and "map irq (channels (irq_configure cfg s)) = [irqn_tx cfg, irqn_rx cfg]"
    and "map direction (channels (irq_configure cfg s)) = map direction (channels s)"
    by (simp_all add: irq_configure_def Let_def irq_enable_def update_channel_def cs
        XILINX_AXI_DMA_TX_CHANNEL_NUM_def XILINX_AXI_DMA_RX_CHANNEL_NUM_def)
qed

text \<open>
  C9. \<open>dma_xilinx_axi_dma_init\<close> on a device with two channels. If each of the 1000
  reads of the RX channel's DMACR still shows the reset bit, the function returns \<open>-EIO\<close>
  having slept 1000 times for a millisecond; \<open>irq_configure\<close> has not run: the set of
  enabled interrupt lines and the channels' interrupt numbers are unchanged, and the trace
  holds the reset write and the sleeps only. If one of the reads shows the bit clear, the
  function returns 0 and both interrupt lines are connected and enabled.
\<close>

theorem init_soft_reset:
  assumes "cfg_channels cfg = XILINX_AXI_DMA_NUM_CHANNELS" and "length (channels s) = 2"
  shows "((\<forall>i<1000. hw_read s (reads_done s + i)
                      (reg cfg + XILINX_AXI_DMA_S2MM_REG_OFFSET + reg_offset XILINX_AXI_DMA_REG_DMACR)
                    AND XILINX_AXI_DMA_REGS_DMACR_RESET \<noteq> 0)
          \<longrightarrow> fst (dma_xilinx_axi_dma_init k cfg s) = - EIO
              \<and> irqs_enabled (snd (dma_xilinx_axi_dma_init k cfg s)) = irqs_enabled s
              \<and> map irq (channels (snd (dma_xilinx_axi_dma_init k cfg s))) = map irq (channels s)
              \<and> trace (snd (dma_xilinx_axi_dma_init k cfg s))
                  = trace s @ EV_REG_WRITE (reg cfg + XILINX_AXI_DMA_S2MM_REG_OFFSET
                                             + reg_offset XILINX_AXI_DMA_REG_DMACR)
                                XILINX_AXI_DMA_REGS_DMACR_RESET
                            # replicate 1000 (EV_MSLEEP 1))
       \<and> ((\<exists>i<1000. hw_read s (reads_done s + i)
                      (reg cfg + XILINX_AXI_DMA_S2MM_REG_OFFSET + reg_offset XILINX_AXI_DMA_REG_DMACR)
                    AND XILINX_AXI_DMA_REGS_DMACR_RESET = 0)
          \<longrightarrow> fst (dma_xilinx_axi_dma_init k cfg s) = 0
              \<and> irqn_tx cfg \<in> irqs_enabled (snd (dma_xilinx_axi_dma_init k cfg s))
              \<and> irqn_rx cfg \<in> irqs_enabled (snd (dma_xilinx_axi_dma_init k cfg s))
              \<and> map irq (channels (snd (dma_xilinx_axi_dma_init k cfg s)))
                  = [irqn_tx cfg, irqn_rx cfg])"
proof -
  obtain s9 where
    u: "dma_xilinx_axi_dma_init k cfg s
       = (let (reset, s10) = soft_reset_poll s9 (channels s9 ! XILINX_AXI_DMA_RX_CHANNEL_NUM) 1000
          in if \<not> reset then (- EIO, s10) else (0, irq_configure cfg s10))"
    and f: "hw_read s9 = hw_read s" "reads_done s9 = reads_done s"
      "irqs_enabled s9 = irqs_enabled s"
      "trace s9 = trace s @ [EV_REG_WRITE (reg cfg + XILINX_AXI_DMA_S2MM_REG_OFFSET
                                   + reg_offset XILINX_AXI_DMA_REG_DMACR)
                                 XILINX_AXI_DMA_REGS_DMACR_RESET]"
      "length (channels s9) = 2"
      "channel_regs (channels s9 ! XILINX_AXI_DMA_RX_CHANNEL_NUM)
           = reg cfg + XILINX_AXI_DMA_S2MM_REG_OFFSET"
      "map irq (channels s9) = map irq (channels s)"
    by (rule init_unfold[OF assms, of k])
  let ?c = "channels s9 ! XILINX_AXI_DMA_RX_CHANNEL_NUM"
  show ?thesis
  proof (intro conjI impI)
    assume stuck: "\<forall>i<1000. hw_read s (reads_done s + i)
                      (reg cfg + XILINX_AXI_DMA_S2MM_REG_OFFSET + reg_offset XILINX_AXI_DMA_REG_DMACR)
                    AND XILINX_AXI_DMA_REGS_DMACR_RESET \<noteq> 0"
    then have "\<forall>i<1000. hw_read s9 (reads_done s9 + i) (channel_regs ?c + reg_offset XILINX_AXI_DMA_REG_DMACR)
                    AND XILINX_AXI_DMA_REGS_DMACR_RESET \<noteq> 0"
      by (simp add: f)
    from soft_reset_poll_timeout[OF this]
    have r: "dma_xilinx_axi_dma_init k cfg s
               = (- EIO, s9\<lparr>reads_done := reads_done s9 + 1000,
                            trace := trace s9 @ replicate 1000 (EV_MSLEEP 1)\<rparr>)"
      unfolding u by (simp only: Let_def prod.case not_False_eq_True if_True)
    show "fst (dma_xilinx_axi_dma_init k cfg s) = - EIO" by (simp add: r)
    show "irqs_enabled (snd (dma_xilinx_axi_dma_init k cfg s)) = irqs_enabled s"
      by (simp add: r f)
    show "map irq (channels (snd (dma_xilinx_axi_dma_init k cfg s))) = map irq (channels s)"
      by (simp add: r f)
    show "trace (snd (dma_xilinx_axi_dma_init k cfg s))
                  = trace s @ EV_REG_WRITE (reg cfg + XILINX_AXI_DMA_S2MM_REG_OFFSET
                                             + reg_offset XILINX_AXI_DMA_REG_DMACR)
                                XILINX_AXI_DMA_REGS_DMACR_RESET
                            # replicate 1000 (EV_MSLEEP 1)"
      by (simp add: r f)
  next
    assume "\<exists>i<1000. hw_read s (reads_done s + i)
                      (reg cfg + XILINX_AXI_DMA_S2MM_REG_OFFSET + reg_offset XILINX_AXI_DMA_REG_DMACR)
                    AND XILINX_AXI_DMA_REGS_DMACR_RESET = 0"
    then have "\<exists>i<1000. hw_read s9 (reads_done s9 + i) (channel_regs ?c + reg_offset XILINX_AXI_DMA_REG_DMACR)
                    AND XILINX_AXI_DMA_REGS_DMACR_RESET = 0"
      by (simp add: f)
    from soft_reset_poll_clears[OF this]
    have ok: "fst (soft_reset_poll s9 ?c 1000)" .
    then have r: "dma_xilinx_axi_dma_init k cfg s
               = (0, irq_configure cfg (snd (soft_reset_poll s9 ?c 1000)))"
      by (simp add: u split_def)
    have len: "length (channels (snd (soft_reset_poll s9 ?c 1000))) = 2"
      using soft_reset_poll_frame[of s9 ?c 1000] f by simp
    show "fst (dma_xilinx_axi_dma_init k cfg s) = 0" by (simp add: r)
    show "irqn_tx cfg \<in> irqs_enabled (snd (dma_xilinx_axi_dma_init k cfg s))"
      by (simp add: r irq_configure_effect[OF len])
    show "irqn_rx cfg \<in> irqs_enabled (snd (dma_xilinx_axi_dma_init k cfg s))"
      by (simp add: r irq_configure_effect[OF len])
    show "map irq (channels (snd (dma_xilinx_axi_dma_init k cfg s)))
                  = [irqn_tx cfg, irqn_rx cfg]"
      by (simp add: r irq_configure_effect[OF len])
  qed
qed


lemma power_on_fields [simp]:
  "length (channels (power_on_data rd)) = 2"
  "hw_read (power_on_data rd) = rd"
  "reads_done (power_on_data rd) = 0"
  "irqs_enabled (power_on_data rd) = {}"
  "trace (power_on_data rd) = []"
  "channels (power_on_data rd) ! Suc 0 = static_channel 2"
  by (simp_all add: power_on_data_def)

lemma example_config_channels: "cfg_channels example_config = XILINX_AXI_DMA_NUM_CHANNELS"
  by (simp add: example_config_def XILINX_AXI_DMA_NUM_CHANNELS_def)

lemma init_result_cases:
  assumes "cfg_channels cfg = XILINX_AXI_DMA_NUM_CHANNELS" and "length (channels s) = 2"
  shows "fst (dma_xilinx_axi_dma_init k cfg s) = 0 \<or> fst (dma_xilinx_axi_dma_init k cfg s) = - EIO"
proof -
  obtain s9 where
    u: "dma_xilinx_axi_dma_init k cfg s
       = (let (reset, s10) = soft_reset_poll s9 (channels s9 ! XILINX_AXI_DMA_RX_CHANNEL_NUM) 1000
          in if \<not> reset then (- EIO, s10) else (0, irq_configure cfg s10))"
    by (rule init_unfold[OF assms, of k])
  show ?thesis unfolding u by (simp add: split_def Let_def)
qed

lemma init_power_on_ok:
  "fst (dma_xilinx_axi_dma_init example_kconfig example_config (power_on_data (\<lambda>n a. 0))) = 0"
proof -
  obtain s9 where
    u: "dma_xilinx_axi_dma_init example_kconfig example_config (power_on_data (\<lambda>n a. 0))
       = (let (reset, s10) = soft_reset_poll s9 (channels s9 ! XILINX_AXI_DMA_RX_CHANNEL_NUM) 1000
          in if \<not> reset then (- EIO, s10) else (0, irq_configure example_config s10))"
    and f: "hw_read s9 = hw_read (power_on_data (\<lambda>n a. 0))"
    by (rule init_unfold[OF example_config_channels power_on_fields(1)])
  have "\<exists>i<1000. hw_read s9 (reads_done s9 + i)
           (channel_regs (channels s9 ! XILINX_AXI_DMA_RX_CHANNEL_NUM)
              + reg_offset XILINX_AXI_DMA_REG_DMACR) AND XILINX_AXI_DMA_REGS_DMACR_RESET = 0"
    by (intro exI[where x=0]) (simp add: f)
  from soft_reset_poll_clears[OF this] show ?thesis
    unfolding u by (simp add: split_def Let_def)
qed

theorem init_soft_reset_witness:
  "fst (dma_xilinx_axi_dma_init example_kconfig example_config (power_on_data (\<lambda>n a. 4))) = - EIO
   \<and> irqs_enabled (snd (dma_xilinx_axi_dma_init example_kconfig example_config
                           (power_on_data (\<lambda>n a. 4)))) = {}
   \<and> fst (dma_xilinx_axi_dma_init example_kconfig example_config (power_on_data (\<lambda>n a. 0))) = 0
   \<and> irqs_enabled (snd (dma_xilinx_axi_dma_init example_kconfig example_config
                           (power_on_data (\<lambda>n a. 0)))) = {5, 6}"
proof -
  have stuck: "\<forall>i<1000. hw_read (power_on_data (\<lambda>n a. 4)) (reads_done (power_on_data (\<lambda>n a. 4)) + i)
                   (reg example_config + XILINX_AXI_DMA_S2MM_REG_OFFSET
                      + reg_offset XILINX_AXI_DMA_REG_DMACR)
                 AND XILINX_AXI_DMA_REGS_DMACR_RESET \<noteq> 0"
    by (simp add: XILINX_AXI_DMA_REGS_DMACR_RESET_def)
  have clears: "\<exists>i<1000. hw_read (power_on_data (\<lambda>n a. 0)) (reads_done (power_on_data (\<lambda>n a. 0)) + i)
                   (reg example_config + XILINX_AXI_DMA_S2MM_REG_OFFSET
                      + reg_offset XILINX_AXI_DMA_REG_DMACR)
                 AND XILINX_AXI_DMA_REGS_DMACR_RESET = 0"
    by (intro exI[where x=0]) simp
  note t1 = init_soft_reset[where k = example_kconfig and s = "power_on_data (\<lambda>n a. 4)",
              OF example_config_channels power_on_fields(1), THEN conjunct1, THEN mp, OF stuck]
  note t2 = init_soft_reset[where k = example_kconfig and s = "power_on_data (\<lambda>n a. 0)",
              OF example_config_channels power_on_fields(1), THEN conjunct2, THEN mp, OF clears]
  have a: "fst (dma_xilinx_axi_dma_init example_kconfig example_config (power_on_data (\<lambda>n a. 4))) = - EIO"
    and b: "irqs_enabled (snd (dma_xilinx_axi_dma_init example_kconfig example_config
                           (power_on_data (\<lambda>n a. 4)))) = {}"
    using t1 by simp_all
  have c: "fst (dma_xilinx_axi_dma_init example_kconfig example_config (power_on_data (\<lambda>n a. 0))) = 0"
    using t2 by simp
  have sub: "{5, 6} \<subseteq> irqs_enabled (snd (dma_xilinx_axi_dma_init example_kconfig example_config
                           (power_on_data (\<lambda>n a. 0))))"
    using t2 by (simp add: example_config_def)
  obtain s9 where
    u: "dma_xilinx_axi_dma_init example_kconfig example_config (power_on_data (\<lambda>n a. 0))
       = (let (reset, s10) = soft_reset_poll s9 (channels s9 ! XILINX_AXI_DMA_RX_CHANNEL_NUM) 1000
          in if \<not> reset then (- EIO, s10) else (0, irq_configure example_config s10))"
    and f: "irqs_enabled s9 = irqs_enabled (power_on_data (\<lambda>n a. 0))"
    by (rule init_unfold[OF example_config_channels power_on_fields(1)])
  have "irqs_enabled (snd (dma_xilinx_axi_dma_init example_kconfig example_config
                           (power_on_data (\<lambda>n a. 0)))) \<subseteq> {5, 6}"
    unfolding u using soft_reset_poll_frame[of s9 "channels s9 ! XILINX_AXI_DMA_RX_CHANNEL_NUM" 1000] f
    by (auto simp: split_def Let_def irq_configure_def irq_enable_def example_config_def
        split: if_splits)
  with sub have d: "irqs_enabled (snd (dma_xilinx_axi_dma_init example_kconfig example_config
                           (power_on_data (\<lambda>n a. 0)))) = {5, 6}" by blast
  show ?thesis using a b c d by simp
qed

lemma get_status_dir:
  assumes "channel < cfg_channels cfg"
  shows "fst (dma_xilinx_axi_dma_get_status cfg s channel stat) = 0"
    and "dir (fst (snd (dma_xilinx_axi_dma_get_status cfg s channel stat)))
           = direction (channels s ! channel)"
  using assms by (simp_all add: dma_xilinx_axi_dma_get_status_def split_def Let_def)

text \<open>
  C4 says that after a successful initialisation the TX channel's direction is
  memory-to-peripheral and the RX channel's peripheral-to-memory. The function assigns
  the TX channel's direction twice, the second time \<open>PERIPHERAL_TO_MEMORY\<close>, and never
  assigns the RX channel's: after a successful initialisation the TX channel's direction
  is \<open>PERIPHERAL_TO_MEMORY\<close>, the RX channel's is what it was before the call, and
  \<open>dma_xilinx_axi_dma_get_status\<close> reports exactly those.
\<close>

theorem init_directions:
  assumes "cfg_channels cfg = XILINX_AXI_DMA_NUM_CHANNELS" and "length (channels s) = 2"
    and "fst (dma_xilinx_axi_dma_init k cfg s) = 0"
  shows "direction (channels (snd (dma_xilinx_axi_dma_init k cfg s)) ! XILINX_AXI_DMA_TX_CHANNEL_NUM)
           = PERIPHERAL_TO_MEMORY
    \<and> direction (channels (snd (dma_xilinx_axi_dma_init k cfg s)) ! XILINX_AXI_DMA_RX_CHANNEL_NUM)
           = direction (channels s ! XILINX_AXI_DMA_RX_CHANNEL_NUM)
    \<and> dir (fst (snd (dma_xilinx_axi_dma_get_status cfg (snd (dma_xilinx_axi_dma_init k cfg s))
                        XILINX_AXI_DMA_TX_CHANNEL_NUM stat)))
           = PERIPHERAL_TO_MEMORY
    \<and> dir (fst (snd (dma_xilinx_axi_dma_get_status cfg (snd (dma_xilinx_axi_dma_init k cfg s))
                        XILINX_AXI_DMA_RX_CHANNEL_NUM stat)))
           = direction (channels s ! XILINX_AXI_DMA_RX_CHANNEL_NUM)"
proof -
  obtain s9 where
    u: "dma_xilinx_axi_dma_init k cfg s
       = (let (reset, s10) = soft_reset_poll s9 (channels s9 ! XILINX_AXI_DMA_RX_CHANNEL_NUM) 1000
          in if \<not> reset then (- EIO, s10) else (0, irq_configure cfg s10))"
    and len: "length (channels s9) = 2"
    and d: "direction (channels s9 ! XILINX_AXI_DMA_TX_CHANNEL_NUM) = PERIPHERAL_TO_MEMORY"
      "direction (channels s9 ! XILINX_AXI_DMA_RX_CHANNEL_NUM)
           = direction (channels s ! XILINX_AXI_DMA_RX_CHANNEL_NUM)"
    by (rule init_unfold[OF assms(1,2), of k])
  let ?p = "soft_reset_poll s9 (channels s9 ! XILINX_AXI_DMA_RX_CHANNEL_NUM) 1000"
  have pc: "channels (snd ?p) = channels s9"
    using soft_reset_poll_frame[of s9 "channels s9 ! XILINX_AXI_DMA_RX_CHANNEL_NUM" 1000] by simp
  have "fst ?p"
    using assms(3) unfolding u by (auto simp: split_def Let_def EIO_def split: if_splits)
  then have r: "snd (dma_xilinx_axi_dma_init k cfg s) = irq_configure cfg (snd ?p)"
    unfolding u by (simp add: split_def Let_def)
  have "map direction (channels (irq_configure cfg (snd ?p))) = map direction (channels s9)"
    using irq_configure_effect(4)[of "snd ?p" cfg] len pc by simp
  then have dd: "direction (channels (irq_configure cfg (snd ?p)) ! i) = direction (channels s9 ! i)"
    if "i < 2" for i
    using that len by (metis length_map nth_map)
  have tx: "direction (channels (snd (dma_xilinx_axi_dma_init k cfg s)) ! XILINX_AXI_DMA_TX_CHANNEL_NUM)
           = PERIPHERAL_TO_MEMORY"
    unfolding r using dd[of XILINX_AXI_DMA_TX_CHANNEL_NUM] d
    by (simp add: XILINX_AXI_DMA_TX_CHANNEL_NUM_def)
  have rx: "direction (channels (snd (dma_xilinx_axi_dma_init k cfg s)) ! XILINX_AXI_DMA_RX_CHANNEL_NUM)
           = direction (channels s ! XILINX_AXI_DMA_RX_CHANNEL_NUM)"
    unfolding r using dd[of XILINX_AXI_DMA_RX_CHANNEL_NUM] d
    by (simp add: XILINX_AXI_DMA_RX_CHANNEL_NUM_def)
  have lt: "XILINX_AXI_DMA_TX_CHANNEL_NUM < cfg_channels cfg"
    "XILINX_AXI_DMA_RX_CHANNEL_NUM < cfg_channels cfg"
    using assms(1) by (simp_all add: XILINX_AXI_DMA_NUM_CHANNELS_def
        XILINX_AXI_DMA_TX_CHANNEL_NUM_def XILINX_AXI_DMA_RX_CHANNEL_NUM_def)
  show ?thesis
    using tx rx by (simp add: get_status_dir(2)[OF lt(1)] get_status_dir(2)[OF lt(2)])
qed

theorem init_directions_witness:
  "fst (dma_xilinx_axi_dma_init example_kconfig example_config (power_on_data (\<lambda>n a. 0))) = 0
   \<and> dir (fst (snd (dma_xilinx_axi_dma_get_status example_config
          (snd (dma_xilinx_axi_dma_init example_kconfig example_config (power_on_data (\<lambda>n a. 0))))
          XILINX_AXI_DMA_TX_CHANNEL_NUM \<lparr>busy = False, dir = MEMORY_TO_MEMORY\<rparr>)))
       = PERIPHERAL_TO_MEMORY
   \<and> dir (fst (snd (dma_xilinx_axi_dma_get_status example_config
          (snd (dma_xilinx_axi_dma_init example_kconfig example_config (power_on_data (\<lambda>n a. 0))))
          XILINX_AXI_DMA_RX_CHANNEL_NUM \<lparr>busy = False, dir = MEMORY_TO_MEMORY\<rparr>)))
       = MEMORY_TO_MEMORY"
proof -
  have rx0: "direction (channels (power_on_data (\<lambda>n a. 0)) ! XILINX_AXI_DMA_RX_CHANNEL_NUM)
               = MEMORY_TO_MEMORY"
    by (simp add: XILINX_AXI_DMA_RX_CHANNEL_NUM_def static_channel_def)
  show ?thesis
    using init_directions[where stat = "\<lparr>busy = False, dir = MEMORY_TO_MEMORY\<rparr>",
            OF example_config_channels power_on_fields(1) init_power_on_ok]
      init_power_on_ok rx0
    by simp
qed

subsection \<open>Configuration\<close>

lemma ucast_low: "(ucast (x AND 0xffffffff :: 64 word) :: 32 word) = ucast x"
proof -
  have h: "(0xffffffff :: 64 word) = mask 32" by (simp add: mask_eq_exp_minus_1)
  show ?thesis unfolding h by (rule bit_word_eqI) (auto simp: bit_simps)
qed

lemma configure_link_eq:
  assumes "ch < length (channels s)" and "i < length (descriptors (channels s ! ch))"
  shows "configure_link k ch s i
           = s\<lparr>channels := (channels s)[ch := (channels s ! ch)\<lparr>descriptors :=
                 (descriptors (channels s ! ch))
                   [i := link_descriptor k (channels s ! ch) i (descriptors (channels s ! ch) ! i)]\<rparr>]\<rparr>"
  using assms
  by (simp add: configure_link_def link_descriptor_def Let_def update_descriptor_def
      update_channel_def ucast_low descriptor_addr_def)

lemma configure_link_fold:
  assumes "ch < length (channels s)" and "m \<le> length (descriptors (channels s ! ch))"
  shows "foldl (configure_link k ch) s [0..<m]
           = s\<lparr>channels := (channels s)[ch := (channels s ! ch)\<lparr>descriptors :=
                 map (\<lambda>i. if i < m
                          then link_descriptor k (channels s ! ch) i (descriptors (channels s ! ch) ! i)
                          else descriptors (channels s ! ch) ! i)
                     [0..<length (descriptors (channels s ! ch))]\<rparr>]\<rparr>"
  using assms(2)
proof (induction m)
  case 0
  show ?case by (simp add: map_nth)
next
  case (Suc m)
  let ?c = "channels s ! ch"
  let ?ds = "descriptors ?c"
  let ?f = "\<lambda>m i. if i < m then link_descriptor k ?c i (?ds ! i) else ?ds ! i"
  let ?sm = "s\<lparr>channels := (channels s)[ch := ?c\<lparr>descriptors := map (?f m) [0..<length ?ds]\<rparr>]\<rparr>"
  have m: "m < length ?ds" using Suc.prems by simp
  have ih: "foldl (configure_link k ch) s [0..<m] = ?sm"
    using Suc.IH m by simp
  have cm: "channels ?sm ! ch = ?c\<lparr>descriptors := map (?f m) [0..<length ?ds]\<rparr>"
    using assms(1) by simp
  have lk: "link_descriptor k (?c\<lparr>descriptors := map (?f m) [0..<length ?ds]\<rparr>) m d
              = link_descriptor k ?c m d" for d
    by (simp add: link_descriptor_def descriptor_addr_def)
  have upd: "(map (?f m) [0..<length ?ds])[m := link_descriptor k ?c m (?ds ! m)]
               = map (?f (Suc m)) [0..<length ?ds]"
    using m by (intro nth_equalityI) (auto simp: nth_list_update less_Suc_eq)
  have "foldl (configure_link k ch) s [0..<Suc m] = configure_link k ch ?sm m"
    by (simp add: ih)
  also have "\<dots> = ?sm\<lparr>channels := (channels ?sm)[ch := (channels ?sm ! ch)\<lparr>descriptors :=
                 (descriptors (channels ?sm ! ch))
                   [m := link_descriptor k (channels ?sm ! ch) m (descriptors (channels ?sm ! ch) ! m)]\<rparr>]\<rparr>"
    by (rule configure_link_eq) (use assms(1) m in simp_all)
  also have "\<dots> = s\<lparr>channels := (channels s)[ch := ?c\<lparr>descriptors := map (?f (Suc m)) [0..<length ?ds]\<rparr>]\<rparr>"
    unfolding cm using m by (simp add: lk upd)
  finally show ?case .
qed

lemma map_if_upt: "map (\<lambda>i. if i < n then f i else g i) [0..<n] = map f [0..<n]"
  by (intro nth_equalityI) auto

lemma configure_link_fold_all:
  assumes "ch < length (channels s)"
  shows "foldl (configure_link k ch) s [0..<length (descriptors (channels s ! ch))]
           = s\<lparr>channels := (channels s)[ch := (channels s ! ch)\<lparr>descriptors :=
                 map (\<lambda>i. link_descriptor k (channels s ! ch) i (descriptors (channels s ! ch) ! i))
                     [0..<length (descriptors (channels s ! ch))]\<rparr>]\<rparr>"
  by (simp only: configure_link_fold[OF assms order_refl] map_if_upt)

lemma configure_ring_channels:
  assumes "ch < length (channels s)"
    and "num_descriptors (channels s ! ch) = length (descriptors (channels s ! ch))"
  shows "channels (configure_ring k s ch)
           = (channels s)[ch := (channels s ! ch)
               \<lparr>populated_desc_index := num_descriptors (channels s ! ch) - 1,
                completion_desc_index := 0,
                descriptors := map (\<lambda>i. link_descriptor k (channels s ! ch) i
                                         (descriptors (channels s ! ch) ! i))
                                  [0..<length (descriptors (channels s ! ch))],
                check_csum_in_isr := False\<rparr>]"
proof -
  let ?c = "channels s ! ch"
  let ?c2 = "?c\<lparr>populated_desc_index := num_descriptors ?c - 1, completion_desc_index := 0\<rparr>"
  let ?s2 = "s\<lparr>channels := (channels s)[ch := ?c2]\<rparr>"
  have s2: "update_channel (update_channel s ch (\<lambda>c. c\<lparr>populated_desc_index := num_descriptors c - 1\<rparr>))
               ch (\<lambda>c. c\<lparr>completion_desc_index := 0\<rparr>) = ?s2"
    using assms(1) by (simp add: update_channel_def)
  have c2: "channels ?s2 ! ch = ?c2" and l2: "ch < length (channels ?s2)"
    using assms(1) by simp_all
  have lk: "link_descriptor k ?c2 i d = link_descriptor k ?c i d" for i d
    by (simp add: link_descriptor_def descriptor_addr_def)
  have "foldl (configure_link k ch) ?s2 [0..<length (descriptors (channels ?s2 ! ch))]
          = ?s2\<lparr>channels := (channels ?s2)[ch := (channels ?s2 ! ch)\<lparr>descriptors :=
                 map (\<lambda>i. link_descriptor k (channels ?s2 ! ch) i (descriptors (channels ?s2 ! ch) ! i))
                     [0..<length (descriptors (channels ?s2 ! ch))]\<rparr>]\<rparr>"
    by (rule configure_link_fold_all[OF l2])
  then have fold: "foldl (configure_link k ch) ?s2 [0..<num_descriptors ?c2]
          = s\<lparr>channels := (channels s)[ch := ?c2\<lparr>descriptors :=
                 map (\<lambda>i. link_descriptor k ?c i (descriptors ?c ! i))
                     [0..<length (descriptors ?c)]\<rparr>]\<rparr>"
    unfolding c2 lk using assms(2) by simp
  show ?thesis
    unfolding configure_ring_def Let_def s2 c2 fold
    using assms(1) by (simp add: update_channel_def)
qed


lemma keeps_pending_refl [simp]: "keeps_pending c c"
  by (simp add: keeps_pending_def)

lemma keeps_pending_trans:
  assumes "keeps_pending a b" and "keeps_pending b c"
  shows "keeps_pending a c"
  unfolding keeps_pending_def
proof (intro conjI allI impI)
  show "length (descriptors c) = length (descriptors a)"
    using assms by (simp add: keeps_pending_def)
next
  fix i assume i: "i < length (descriptors a)"
  then have ib: "i < length (descriptors b)" using assms(1) by (simp add: keeps_pending_def)
  show "descriptor_free (descriptors a ! i)
        \<or> control (descriptors c ! i) = control (descriptors a ! i)
          \<and> status (descriptors c ! i) = status (descriptors a ! i)"
  proof (cases "descriptor_free (descriptors a ! i)")
    case True
    then show ?thesis by simp
  next
    case False
    with assms(1) i have ab: "control (descriptors b ! i) = control (descriptors a ! i)"
      "status (descriptors b ! i) = status (descriptors a ! i)"
      by (auto simp: keeps_pending_def)
    with False have "\<not> descriptor_free (descriptors b ! i)"
      by (simp add: descriptor_free_def)
    with assms(2) ib have "control (descriptors c ! i) = control (descriptors b ! i)"
      "status (descriptors c ! i) = status (descriptors b ! i)"
      by (auto simp: keeps_pending_def)
    with ab show ?thesis by simp
  qed
qed

lemma submit_rel_refl: "channel_wf c \<Longrightarrow> submit_rel c c"
  by (simp add: submit_rel_def)

lemma submit_rel_trans: "submit_rel a b \<Longrightarrow> submit_rel b c \<Longrightarrow> submit_rel a c"
  unfolding submit_rel_def by (auto intro: keeps_pending_trans)

lemma map_update_same:
  assumes "i < length xs" and "f y = f (xs ! i)"
  shows "map f (xs[i := y]) = map f xs"
  using assms by (intro nth_equalityI) (auto simp: nth_list_update)

lemma keeps_pending_update:
  assumes "i < length (descriptors c)" and "descriptor_free (descriptors c ! i)"
    and "descriptors c' = (descriptors c)[i := d]"
  shows "keeps_pending c c'"
  using assms by (auto simp: keeps_pending_def nth_list_update)

lemma submit_view_rel:
  assumes "channel_wf c"
  shows "submit_rel c (snd (submit_view k ch c a b f l))"
proof -
  let ?nx = "next_index c"
  have nx: "?nx < length (descriptors c)" using assms by (rule next_index_less)
  have nxn: "?nx < num_descriptors c" using nx assms by (simp add: channel_wf_def)
  have sb: "nxtdesc (submit_buffer k c a d) = nxtdesc d"
    "nxtdesc_msb (submit_buffer k c a d) = nxtdesc_msb d" for d
    by (simp_all add: submit_buffer_def)
  show ?thesis
  proof (cases "control (descriptors c ! ?nx) \<noteq> 0 \<or> status (descriptors c ! ?nx) \<noteq> 0")
    case True
    then show ?thesis using assms by (simp add: submit_view_def Let_def submit_rel_refl)
  next
    case False
    then have free: "descriptor_free (descriptors c ! ?nx)" by (simp add: descriptor_free_def)
    show ?thesis
    proof (cases "rx_misaligned k ch a b")
      case True
      with False show ?thesis using assms by (simp add: submit_view_def Let_def submit_rel_refl)
    next
      case na: False
      show ?thesis
      proof (cases "UINT32_MAX < b")
        case True
        with False na have e: "snd (submit_view k ch c a b f l)
            = c\<lparr>descriptors := (descriptors c)[?nx := submit_buffer k c a (descriptors c ! ?nx)]\<rparr>"
          by (simp add: submit_view_def Let_def)
        show ?thesis unfolding e submit_rel_def
          using assms nx free
          by (auto simp: channel_wf_def map_update_same sb intro: keeps_pending_update)
      next
        case False
        with \<open>\<not> (control (descriptors c ! ?nx) \<noteq> 0 \<or> status (descriptors c ! ?nx) \<noteq> 0)\<close> na
        have e: "snd (submit_view k ch c a b f l)
            = c\<lparr>descriptors := (descriptors c)
                       [?nx := (submit_buffer k c a (descriptors c ! ?nx))
                                \<lparr>control := submit_control b f l\<rparr>],
                    populated_desc_index := ?nx\<rparr>"
          by (simp add: submit_view_def Let_def)
        show ?thesis unfolding e submit_rel_def
          using assms nx nxn free
          by (auto simp: channel_wf_def map_update_same sb intro: keeps_pending_update)
      qed
    qed
  qed
qed

lemma transfer_block_rel:
  assumes "ch < length (channels s)" and "channel_wf (channels s ! ch)"
  shows "length (channels (snd (dma_xilinx_axi_dma_transfer_block k s ch a b f l))) = length (channels s)"
    and "submit_rel (channels s ! ch)
           (channels (snd (dma_xilinx_axi_dma_transfer_block k s ch a b f l)) ! ch)"
  using assms submit_view_rel[OF assms(2), of k ch a b f l]
  by (simp_all add: transfer_block_view(2))

lemma configure_block_step_rel:
  assumes "ch < length (channels s)" and "channel_wf (channels s ! ch)"
  shows "length (channels (snd (configure_block_step k s ch ret n blk nn))) = length (channels s)"
    and "submit_rel (channels s ! ch) (channels (snd (configure_block_step k s ch ret n blk nn)) ! ch)"
  using assms transfer_block_rel[OF assms]
  by (simp_all add: configure_block_step_def split_def Let_def submit_rel_refl)

lemma configure_blocks_rel:
  assumes "ch < length (channels s)" and "channel_wf (channels s ! ch)"
  shows "length (channels (snd (configure_blocks k s ch ret n blk bs))) = length (channels s)
       \<and> submit_rel (channels s ! ch) (channels (snd (configure_blocks k s ch ret n blk bs)) ! ch)"
  using assms
proof (induction bs arbitrary: s ret n blk)
  case Nil
  then show ?case using configure_block_step_rel[OF Nil.prems] by simp
next
  case (Cons b bs)
  let ?st = "configure_block_step k s ch ret n blk False"
  have l1: "length (channels (snd ?st)) = length (channels s)"
    and r1: "submit_rel (channels s ! ch) (channels (snd ?st) ! ch)"
    using configure_block_step_rel[OF Cons.prems] by simp_all
  show ?case
  proof (cases "fst ?st = 0")
    case True
    have wf1: "channel_wf (channels (snd ?st) ! ch)" using r1 by (simp add: submit_rel_def)
    have ch1: "ch < length (channels (snd ?st))" using l1 Cons.prems(1) by simp
    from Cons.IH[OF ch1 wf1, of "fst ?st" "n + 1" b] True l1 r1
    show ?thesis by (auto simp: split_def Let_def intro: submit_rel_trans)
  next
    case False
    then show ?thesis using l1 r1 by (simp add: split_def Let_def)
  qed
qed


lemma length_channels_links:
  "length (channels (foldl (configure_link k ch) s xs)) = length (channels s)"
  by (induction xs arbitrary: s)
     (simp_all add: configure_link_def Let_def update_descriptor_def update_channel_def)

lemma length_channels_configure_ring [simp]:
  "length (channels (configure_ring k s ch)) = length (channels s)"
  by (simp add: configure_ring_def Let_def length_channels_links)

lemma configure_checks:
  "configure_args_ok cfg ch dma_cfg \<longleftrightarrow>
     \<not> (cfg_channels cfg \<le> ch
        \<or> source_addr_adj (head_block dma_cfg) = DMA_ADDR_ADJ_DECREMENT
        \<or> dest_addr_adj (head_block dma_cfg) = DMA_ADDR_ADJ_DECREMENT
        \<or> (source_addr_adj (head_block dma_cfg) \<noteq> DMA_ADDR_ADJ_INCREMENT
             \<and> source_addr_adj (head_block dma_cfg) \<noteq> DMA_ADDR_ADJ_NO_CHANGE)
        \<or> (dest_addr_adj (head_block dma_cfg) \<noteq> DMA_ADDR_ADJ_INCREMENT
             \<and> dest_addr_adj (head_block dma_cfg) \<noteq> DMA_ADDR_ADJ_NO_CHANGE)
        \<or> (ch = XILINX_AXI_DMA_TX_CHANNEL_NUM \<and> channel_direction dma_cfg \<noteq> MEMORY_TO_PERIPHERAL)
        \<or> (ch = XILINX_AXI_DMA_RX_CHANNEL_NUM \<and> channel_direction dma_cfg \<noteq> PERIPHERAL_TO_MEMORY))"
  unfolding configure_args_ok_def DMA_ADDR_ADJ_INCREMENT_def DMA_ADDR_ADJ_DECREMENT_def
    DMA_ADDR_ADJ_NO_CHANGE_def XILINX_AXI_DMA_TX_CHANNEL_NUM_def XILINX_AXI_DMA_RX_CHANNEL_NUM_def
  by (cases "ch = 0"; cases "ch = Suc 0"; auto)

lemma configure_unfold:
  assumes "configure_args_ok cfg ch dma_cfg"
  shows "dma_xilinx_axi_dma_configure k cfg s ch dma_cfg
           = (case configure_csum (configure_ring k s ch) ch (linked_channel dma_cfg) of
                None \<Rightarrow> (- EINVAL, configure_ring k s ch)
              | Some s2 \<Rightarrow>
                  configure_blocks k
                    (update_channel
                       (update_channel s2 ch (\<lambda>c. c\<lparr>completion_callback := dma_callback dma_cfg\<rparr>))
                       ch (\<lambda>c. c\<lparr>completion_callback_user_data := user_data dma_cfg\<rparr>))
                    ch 0 0 (head_block dma_cfg) (next_blocks dma_cfg))"
proof -
  from assms have n: "\<not> cfg_channels cfg \<le> ch"
    "source_addr_adj (head_block dma_cfg) \<noteq> DMA_ADDR_ADJ_DECREMENT"
    "dest_addr_adj (head_block dma_cfg) \<noteq> DMA_ADDR_ADJ_DECREMENT"
    "\<not> (source_addr_adj (head_block dma_cfg) \<noteq> DMA_ADDR_ADJ_INCREMENT
             \<and> source_addr_adj (head_block dma_cfg) \<noteq> DMA_ADDR_ADJ_NO_CHANGE)"
    "\<not> (dest_addr_adj (head_block dma_cfg) \<noteq> DMA_ADDR_ADJ_INCREMENT
             \<and> dest_addr_adj (head_block dma_cfg) \<noteq> DMA_ADDR_ADJ_NO_CHANGE)"
    "\<not> (ch = XILINX_AXI_DMA_TX_CHANNEL_NUM \<and> channel_direction dma_cfg \<noteq> MEMORY_TO_PERIPHERAL)"
    "\<not> (ch = XILINX_AXI_DMA_RX_CHANNEL_NUM \<and> channel_direction dma_cfg \<noteq> PERIPHERAL_TO_MEMORY)"
    unfolding configure_checks by blast+
  show ?thesis
    unfolding dma_xilinx_axi_dma_configure_def
    by (simp only: n if_False Let_def)
qed

lemma configure_rejected:
  assumes "\<not> configure_args_ok cfg ch dma_cfg"
  shows "snd (dma_xilinx_axi_dma_configure k cfg s ch dma_cfg) = s"
proof -
  from assms have "cfg_channels cfg \<le> ch
        \<or> source_addr_adj (head_block dma_cfg) = DMA_ADDR_ADJ_DECREMENT
        \<or> dest_addr_adj (head_block dma_cfg) = DMA_ADDR_ADJ_DECREMENT
        \<or> (source_addr_adj (head_block dma_cfg) \<noteq> DMA_ADDR_ADJ_INCREMENT
             \<and> source_addr_adj (head_block dma_cfg) \<noteq> DMA_ADDR_ADJ_NO_CHANGE)
        \<or> (dest_addr_adj (head_block dma_cfg) \<noteq> DMA_ADDR_ADJ_INCREMENT
             \<and> dest_addr_adj (head_block dma_cfg) \<noteq> DMA_ADDR_ADJ_NO_CHANGE)
        \<or> (ch = XILINX_AXI_DMA_TX_CHANNEL_NUM \<and> channel_direction dma_cfg \<noteq> MEMORY_TO_PERIPHERAL)
        \<or> (ch = XILINX_AXI_DMA_RX_CHANNEL_NUM \<and> channel_direction dma_cfg \<noteq> PERIPHERAL_TO_MEMORY)"
    unfolding configure_checks by blast
  then show ?thesis
    unfolding dma_xilinx_axi_dma_configure_def
    by (elim disjE) simp_all
qed

text \<open>The channel as it enters the block loop, or as it is returned when the selector of
  the checksum mode is refused: the ring of \<open>configure_ring\<close>, with other fields set.\<close>

lemma configure_prepared:
  assumes "ch < length (channels s)" and "configure_args_ok cfg ch dma_cfg"
  obtains s4 where
    "dma_xilinx_axi_dma_configure k cfg s ch dma_cfg
        = configure_blocks k s4 ch 0 0 (head_block dma_cfg) (next_blocks dma_cfg)
     \<or> dma_xilinx_axi_dma_configure k cfg s ch dma_cfg = (- EINVAL, s4)"
    and "length (channels s4) = length (channels s)"
    and "descriptors (channels s4 ! ch) = descriptors (channels (configure_ring k s ch) ! ch)"
    and "num_descriptors (channels s4 ! ch) = num_descriptors (channels (configure_ring k s ch) ! ch)"
    and "descriptors_ptr (channels s4 ! ch) = descriptors_ptr (channels (configure_ring k s ch) ! ch)"
    and "populated_desc_index (channels s4 ! ch)
           = populated_desc_index (channels (configure_ring k s ch) ! ch)"
    and "completion_desc_index (channels s4 ! ch)
           = completion_desc_index (channels (configure_ring k s ch) ! ch)"
proof -
  let ?s1 = "configure_ring k s ch"
  have l1: "length (channels ?s1) = length (channels s)"
    by simp
  show thesis
  proof (cases "configure_csum ?s1 ch (linked_channel dma_cfg)")
    case None
    show thesis
      by (rule that[of ?s1]) (simp_all add: configure_unfold[OF assms(2)] None l1)
  next
    case (Some s2)
    let ?s4 = "update_channel
                 (update_channel s2 ch (\<lambda>c. c\<lparr>completion_callback := dma_callback dma_cfg\<rparr>))
                 ch (\<lambda>c. c\<lparr>completion_callback_user_data := user_data dma_cfg\<rparr>)"
    have s2: "s2 = update_channel ?s1 ch (\<lambda>c. c\<lparr>sg_desc_app0 :=
                     XILINX_AXI_DMA_SG_DESCRIPTOR_APP0_CHECKSUM_OFFLOAD_FULL\<rparr>)
            \<or> s2 = update_channel ?s1 ch (\<lambda>c. c\<lparr>check_csum_in_isr := True\<rparr>)
            \<or> s2 = update_channel ?s1 ch (\<lambda>c. c\<lparr>sg_desc_app0 :=
                     XILINX_AXI_DMA_SG_DESCRIPTOR_APP0_CHECKSUM_OFFLOAD_NONE\<rparr>)"
      using Some by (auto simp: configure_csum_def split: if_splits)
    have ch1: "ch < length (channels ?s1)" using l1 assms(1) by simp
    show thesis
      by (rule that[of ?s4]) (use s2 ch1 l1 in \<open>auto simp: configure_unfold[OF assms(2)] Some\<close>)
  qed
qed

lemma link_descriptor_fields [simp]:
  "control (link_descriptor k c i d) = control d"
  "status (link_descriptor k c i d) = status d"
  "app0 (link_descriptor k c i d) = app0 d"
  "app1 (link_descriptor k c i d) = app1 d"
  "app2 (link_descriptor k c i d) = app2 d"
  "app3 (link_descriptor k c i d) = app3 d"
  "app4 (link_descriptor k c i d) = app4 d"
  "buffer_address (link_descriptor k c i d) = buffer_address d"
  by (simp_all add: link_descriptor_def Let_def)

lemma link_descriptor_nxtdesc:
  assumes "i < num_descriptors c"
  shows "nxtdesc (link_descriptor k c i d)
           = ucast (descriptor_addr c ((i + 1) mod num_descriptors c))"
    and "nxtdesc_msb (link_descriptor k c i d)
           = (if CONFIG_DMA_64BIT k
              then ucast (drop_bit 32 (descriptor_addr c ((i + 1) mod num_descriptors c)))
              else nxtdesc_msb d)"
proof -
  have "(if i + 1 < num_descriptors c then i + 1 else 0) = (i + 1) mod num_descriptors c"
    using assms by (auto simp: not_less le_Suc_eq)
  then show "nxtdesc (link_descriptor k c i d)
           = ucast (descriptor_addr c ((i + 1) mod num_descriptors c))"
    and "nxtdesc_msb (link_descriptor k c i d)
           = (if CONFIG_DMA_64BIT k
              then ucast (drop_bit 32 (descriptor_addr c ((i + 1) mod num_descriptors c)))
              else nxtdesc_msb d)"
    by (simp_all add: link_descriptor_def Let_def del: One_nat_def)
qed

text \<open>The channel right after \<open>configure_ring\<close>.\<close>

lemma configure_ring_channel:
  assumes "ch < length (channels s)"
    and "num_descriptors (channels s ! ch) = length (descriptors (channels s ! ch))"
  shows "channels (configure_ring k s ch) ! ch
           = (channels s ! ch)
               \<lparr>populated_desc_index := num_descriptors (channels s ! ch) - 1,
                completion_desc_index := 0,
                descriptors := map (\<lambda>i. link_descriptor k (channels s ! ch) i
                                         (descriptors (channels s ! ch) ! i))
                                  [0..<length (descriptors (channels s ! ch))],
                check_csum_in_isr := False\<rparr>"
  using assms by (simp add: configure_ring_channels)

lemma configure_ring_wf:
  assumes "ch < length (channels s)"
    and "num_descriptors (channels s ! ch) = length (descriptors (channels s ! ch))"
    and "0 < num_descriptors (channels s ! ch)"
  shows "channel_wf (channels (configure_ring k s ch) ! ch)"
    and "keeps_pending (channels s ! ch) (channels (configure_ring k s ch) ! ch)"
  using assms
  by (simp_all add: configure_ring_channel channel_wf_def keeps_pending_def)

lemma keeps_pending_descriptors:
  "descriptors a' = descriptors a \<Longrightarrow> keeps_pending a' c = keeps_pending a c"
  by (simp add: keeps_pending_def)

text \<open>The channel \<open>dma_xilinx_axi_dma_configure\<close> returns, against the channel after
  \<open>configure_ring\<close>.\<close>

lemma configure_result:
  assumes "ch < length (channels s)"
    and "num_descriptors (channels s ! ch) = length (descriptors (channels s ! ch))"
    and "0 < num_descriptors (channels s ! ch)"
    and "configure_args_ok cfg ch dma_cfg"
  shows "channel_wf (channels (snd (dma_xilinx_axi_dma_configure k cfg s ch dma_cfg)) ! ch)
    \<and> map nxtdesc (descriptors (channels (snd (dma_xilinx_axi_dma_configure k cfg s ch dma_cfg)) ! ch))
        = map nxtdesc (descriptors (channels (configure_ring k s ch) ! ch))
    \<and> map nxtdesc_msb (descriptors (channels (snd (dma_xilinx_axi_dma_configure k cfg s ch dma_cfg)) ! ch))
        = map nxtdesc_msb (descriptors (channels (configure_ring k s ch) ! ch))
    \<and> completion_desc_index (channels (snd (dma_xilinx_axi_dma_configure k cfg s ch dma_cfg)) ! ch) = 0
    \<and> keeps_pending (channels s ! ch)
         (channels (snd (dma_xilinx_axi_dma_configure k cfg s ch dma_cfg)) ! ch)"
proof -
  let ?c = "channels s ! ch"
  let ?c1 = "channels (configure_ring k s ch) ! ch"
  let ?r = "dma_xilinx_axi_dma_configure k cfg s ch dma_cfg"
  have wf1: "channel_wf ?c1" and kp1: "keeps_pending ?c ?c1"
    using configure_ring_wf[OF assms(1-3)] by simp_all
  have comp1: "completion_desc_index ?c1 = 0"
    using assms(1,2) by (simp add: configure_ring_channel)
  obtain s4 where
    r: "?r = configure_blocks k s4 ch 0 0 (head_block dma_cfg) (next_blocks dma_cfg)
        \<or> ?r = (- EINVAL, s4)"
    and l4: "length (channels s4) = length (channels s)"
    and d4: "descriptors (channels s4 ! ch) = descriptors ?c1"
    and n4: "num_descriptors (channels s4 ! ch) = num_descriptors ?c1"
    and p4: "descriptors_ptr (channels s4 ! ch) = descriptors_ptr ?c1"
    and pop4: "populated_desc_index (channels s4 ! ch) = populated_desc_index ?c1"
    and comp4: "completion_desc_index (channels s4 ! ch) = completion_desc_index ?c1"
    by (rule configure_prepared[OF assms(1,4)])
  have wf4: "channel_wf (channels s4 ! ch)"
    using wf1 d4 n4 pop4 comp4 unfolding channel_wf_def by auto
  have kp4: "keeps_pending ?c (channels s4 ! ch)"
    using kp1 d4 by (simp add: keeps_pending_def)
  have ch4: "ch < length (channels s4)" using l4 assms(1) by simp
  from r show ?thesis
  proof
    assume e: "?r = configure_blocks k s4 ch 0 0 (head_block dma_cfg) (next_blocks dma_cfg)"
    have rel: "submit_rel (channels s4 ! ch) (channels (snd ?r) ! ch)"
      unfolding e using configure_blocks_rel[OF ch4 wf4] by simp
    then have "keeps_pending (channels s4 ! ch) (channels (snd ?r) ! ch)"
      by (simp add: submit_rel_def)
    with kp4 have "keeps_pending ?c (channels (snd ?r) ! ch)"
      by (rule keeps_pending_trans)
    with rel d4 comp4 comp1 show ?thesis
      by (simp add: submit_rel_def)
  next
    assume e: "?r = (- EINVAL, s4)"
    show ?thesis unfolding e using wf4 d4 comp4 comp1 kp4 by simp
  qed
qed


text \<open>
  C5 says that configuring zero-initialises control, status and the application words of
  every slot. The function does not: it "only configures fields whos default is not 0, as
  descriptors are in zero-initialized segment". Amended: for arguments that pass the checks
  and every prior state of the ring, \<open>configure\<close> links slot \<open>i\<close> to the address of slot
  \<open>(i + 1) mod num_descriptors\<close> (low word, and high word in a 64-bit build), sets
  \<open>populated_desc_index\<close> to \<open>num_descriptors - 1\<close> and \<open>completion_desc_index\<close> to 0, all
  before the first submission, and leaves control, status and the five application words
  of every slot as they were; the links are still in place when the function returns, and
  no descriptor that was not free has lost its control or status.
\<close>

theorem configure_rebuilds_links:
  assumes "ch < length (channels s)"
    and "num_descriptors (channels s ! ch) = length (descriptors (channels s ! ch))"
    and "0 < num_descriptors (channels s ! ch)"
    and "configure_args_ok cfg ch dma_cfg"
    and "i < num_descriptors (channels s ! ch)"
  shows "nxtdesc (descriptors (channels (configure_ring k s ch) ! ch) ! i)
           = ucast (descriptor_addr (channels s ! ch) ((i + 1) mod num_descriptors (channels s ! ch)))
    \<and> nxtdesc_msb (descriptors (channels (configure_ring k s ch) ! ch) ! i)
           = (if CONFIG_DMA_64BIT k
              then ucast (drop_bit 32 (descriptor_addr (channels s ! ch)
                                         ((i + 1) mod num_descriptors (channels s ! ch))))
              else nxtdesc_msb (descriptors (channels s ! ch) ! i))
    \<and> control (descriptors (channels (configure_ring k s ch) ! ch) ! i)
           = control (descriptors (channels s ! ch) ! i)
    \<and> status (descriptors (channels (configure_ring k s ch) ! ch) ! i)
           = status (descriptors (channels s ! ch) ! i)
    \<and> app0 (descriptors (channels (configure_ring k s ch) ! ch) ! i)
           = app0 (descriptors (channels s ! ch) ! i)
    \<and> app1 (descriptors (channels (configure_ring k s ch) ! ch) ! i)
           = app1 (descriptors (channels s ! ch) ! i)
    \<and> app2 (descriptors (channels (configure_ring k s ch) ! ch) ! i)
           = app2 (descriptors (channels s ! ch) ! i)
    \<and> app3 (descriptors (channels (configure_ring k s ch) ! ch) ! i)
           = app3 (descriptors (channels s ! ch) ! i)
    \<and> app4 (descriptors (channels (configure_ring k s ch) ! ch) ! i)
           = app4 (descriptors (channels s ! ch) ! i)
    \<and> populated_desc_index (channels (configure_ring k s ch) ! ch)
           = num_descriptors (channels s ! ch) - 1
    \<and> completion_desc_index (channels (configure_ring k s ch) ! ch) = 0
    \<and> nxtdesc (descriptors (channels (snd (dma_xilinx_axi_dma_configure k cfg s ch dma_cfg)) ! ch) ! i)
           = ucast (descriptor_addr (channels s ! ch) ((i + 1) mod num_descriptors (channels s ! ch)))
    \<and> keeps_pending (channels s ! ch)
         (channels (snd (dma_xilinx_axi_dma_configure k cfg s ch dma_cfg)) ! ch)"
proof -
  let ?c = "channels s ! ch"
  let ?c1 = "channels (configure_ring k s ch) ! ch"
  let ?c' = "channels (snd (dma_xilinx_axi_dma_configure k cfg s ch dma_cfg)) ! ch"
  have il: "i < length (descriptors ?c)" using assms(2,5) by simp
  have d1: "descriptors ?c1 ! i = link_descriptor k ?c i (descriptors ?c ! i)"
    using il by (simp add: configure_ring_channel[OF assms(1,2)])
  have l1: "length (descriptors ?c1) = length (descriptors ?c)"
    by (simp add: configure_ring_channel[OF assms(1,2)])
  note res = configure_result[OF assms(1-4), of k]
  have "map nxtdesc (descriptors ?c') ! i = map nxtdesc (descriptors ?c1) ! i"
    using res by simp
  moreover have "length (descriptors ?c') = length (descriptors ?c1)"
    using res by (metis length_map)
  ultimately have fin: "nxtdesc (descriptors ?c' ! i) = nxtdesc (descriptors ?c1 ! i)"
    using il l1 by simp
  have a: "nxtdesc (descriptors ?c1 ! i)
           = ucast (descriptor_addr ?c ((i + 1) mod num_descriptors ?c))"
    and b: "nxtdesc_msb (descriptors ?c1 ! i)
           = (if CONFIG_DMA_64BIT k
              then ucast (drop_bit 32 (descriptor_addr ?c ((i + 1) mod num_descriptors ?c)))
              else nxtdesc_msb (descriptors ?c ! i))"
    unfolding d1 by (rule link_descriptor_nxtdesc[OF assms(5)])+
  have c: "control (descriptors ?c1 ! i) = control (descriptors ?c ! i)"
    "status (descriptors ?c1 ! i) = status (descriptors ?c ! i)"
    "app0 (descriptors ?c1 ! i) = app0 (descriptors ?c ! i)"
    "app1 (descriptors ?c1 ! i) = app1 (descriptors ?c ! i)"
    "app2 (descriptors ?c1 ! i) = app2 (descriptors ?c ! i)"
    "app3 (descriptors ?c1 ! i) = app3 (descriptors ?c ! i)"
    "app4 (descriptors ?c1 ! i) = app4 (descriptors ?c ! i)"
    unfolding d1 by simp_all
  have p: "populated_desc_index ?c1 = num_descriptors ?c - 1" "completion_desc_index ?c1 = 0"
    by (simp_all add: configure_ring_channel[OF assms(1,2)])
  have kp: "keeps_pending ?c ?c'" using res by simp
  show ?thesis
    by (intro conjI) (rule a b c p kp fin[unfolded a])+
qed


lemma example_args_ok: "configure_args_ok example_config 0 (example_dma_cfg bs)"
  by (simp add: configure_args_ok_def example_config_def example_dma_cfg_def example_block_def
      XILINX_AXI_DMA_TX_CHANNEL_NUM_def)

lemma full_data_pre:
  "0 < length (channels full_data)"
  "num_descriptors (channels full_data ! 0) = length (descriptors (channels full_data ! 0))"
  "0 < num_descriptors (channels full_data ! 0)"
  by (simp_all add: full_data_tx example_channel_def)

lemma full_data_shape:
  "num_descriptors (channels full_data ! 0) = 2"
  "length (descriptors (channels full_data ! 0)) = 2"
  "descriptors_ptr (channels full_data ! 0) = 0x10000000"
  "descriptors (channels full_data ! 0) ! Suc 0 = pending_descriptor"
  "descriptors (channels full_data ! 0) ! 0 = pending_descriptor"
  by (simp_all add: full_data_tx example_channel_def)

lemma keeps_pending_control:
  assumes "keeps_pending c c'" and "i < length (descriptors c)"
    and "control (descriptors c ! i) \<noteq> 0"
  shows "control (descriptors c' ! i) = control (descriptors c ! i)"
  using assms by (auto simp: keeps_pending_def descriptor_free_def)

text \<open>Configuring the TX channel over a ring whose two descriptors are still pending: the
  arguments are accepted, and slot 1 keeps its control word \<open>0x0C000064\<close>, both before the
  first submission and when the function returns.\<close>

theorem configure_keeps_stale_control:
  "configure_args_ok example_config 0 (example_dma_cfg [])
   \<and> control (descriptors (channels full_data ! 0) ! 1) = 0x0C000064
   \<and> control (descriptors (channels (configure_ring example_kconfig full_data 0) ! 0) ! 1)
       = 0x0C000064
   \<and> control (descriptors (channels (snd (dma_xilinx_axi_dma_configure example_kconfig
         example_config full_data 0 (example_dma_cfg []))) ! 0) ! 1) = 0x0C000064"
proof -
  have c0: "control (descriptors (channels full_data ! 0) ! 1) = 0x0C000064"
    by (simp add: full_data_shape pending_descriptor_def zero_descriptor_def)
  have kp1: "keeps_pending (channels full_data ! 0)
               (channels (configure_ring example_kconfig full_data 0) ! 0)"
    by (rule configure_ring_wf(2)[OF full_data_pre])
  have kp2: "keeps_pending (channels full_data ! 0)
               (channels (snd (dma_xilinx_axi_dma_configure example_kconfig
                  example_config full_data 0 (example_dma_cfg []))) ! 0)"
    using configure_result[OF full_data_pre example_args_ok] by simp
  have i: "1 < length (descriptors (channels full_data ! 0))"
    by (simp add: full_data_shape)
  have nz: "control (descriptors (channels full_data ! 0) ! 1) \<noteq> 0"
    unfolding c0 by simp
  show ?thesis
    using keeps_pending_control[OF kp1 i nz] keeps_pending_control[OF kp2 i nz] c0 example_args_ok
    by simp
qed

theorem configure_rebuilds_links_witness:
  "nxtdesc (descriptors (channels (configure_ring example_kconfig full_data 0) ! 0) ! 0) = 0x10000040
   \<and> nxtdesc (descriptors (channels (configure_ring example_kconfig full_data 0) ! 0) ! 1) = 0x10000000
   \<and> nxtdesc (descriptors (channels (snd (dma_xilinx_axi_dma_configure example_kconfig
         example_config full_data 0 (example_dma_cfg []))) ! 0) ! 1) = 0x10000000
   \<and> status (descriptors (channels (configure_ring example_kconfig full_data 0) ! 0) ! 1) = 0
   \<and> populated_desc_index (channels (configure_ring example_kconfig full_data 0) ! 0) = 1
   \<and> completion_desc_index (channels (configure_ring example_kconfig full_data 0) ! 0) = 0"
proof -
  have i0: "0 < num_descriptors (channels full_data ! 0)"
    and i1: "1 < num_descriptors (channels full_data ! 0)"
    by (simp_all add: full_data_shape)
  note t0 = configure_rebuilds_links[OF full_data_pre example_args_ok i0,
              where k = example_kconfig and bs1 = "[]"]
  note t1 = configure_rebuilds_links[OF full_data_pre example_args_ok i1,
              where k = example_kconfig and bs1 = "[]"]
  show ?thesis
    using t0 t1
    by (simp add: full_data_shape descriptor_addr_def sizeof_sg_descriptor_def
        pending_descriptor_def zero_descriptor_def)
qed

subsection \<open>The chain of blocks\<close>

lemma lock_frame_addr [simp]:
  "descriptors_tx_addr (snd (dma_xilinx_axi_dma_lock_irq k s ch)) = descriptors_tx_addr s"
  "descriptors_rx_addr (snd (dma_xilinx_axi_dma_lock_irq k s ch)) = descriptors_rx_addr s"
  "dma_xilinx_axi_dma_data.more (snd (dma_xilinx_axi_dma_lock_irq k s ch)) = dma_xilinx_axi_dma_data.more s"
  by (cases "lock_irqs k";
      simp add: dma_xilinx_axi_dma_lock_irq_def irq_lock_def irq_disable_def Let_def)+

lemma unlock_frame_addr [simp]:
  "descriptors_tx_addr (dma_xilinx_axi_dma_unlock_irq k s ch key) = descriptors_tx_addr s"
  "descriptors_rx_addr (dma_xilinx_axi_dma_unlock_irq k s ch key) = descriptors_rx_addr s"
  "dma_xilinx_axi_dma_data.more (dma_xilinx_axi_dma_unlock_irq k s ch key) = dma_xilinx_axi_dma_data.more s"
  by (cases "lock_irqs k";
      simp add: dma_xilinx_axi_dma_unlock_irq_def irq_unlock_def irq_enable_def Let_def)+

lemma update_frame [simp]:
  "reads_done (update_channel s ch f) = reads_done s"
  "hw_read (update_channel s ch f) = hw_read s"
  "stray_irq (update_channel s ch f) = stray_irq s"
  "descriptors_tx_addr (update_channel s ch f) = descriptors_tx_addr s"
  "descriptors_rx_addr (update_channel s ch f) = descriptors_rx_addr s"
  "dma_xilinx_axi_dma_data.more (update_channel s ch f) = dma_xilinx_axi_dma_data.more s"
  "reads_done (update_descriptor s ch i g) = reads_done s"
  "hw_read (update_descriptor s ch i g) = hw_read s"
  "stray_irq (update_descriptor s ch i g) = stray_irq s"
  "descriptors_tx_addr (update_descriptor s ch i g) = descriptors_tx_addr s"
  "descriptors_rx_addr (update_descriptor s ch i g) = descriptors_rx_addr s"
  "dma_xilinx_axi_dma_data.more (update_descriptor s ch i g) = dma_xilinx_axi_dma_data.more s"
  by (simp_all add: update_channel_def update_descriptor_def)

lemma transfer_block_frame:
  "trace (snd (dma_xilinx_axi_dma_transfer_block k s ch a b f l)) = trace s
   \<and> reads_done (snd (dma_xilinx_axi_dma_transfer_block k s ch a b f l)) = reads_done s
   \<and> hw_read (snd (dma_xilinx_axi_dma_transfer_block k s ch a b f l)) = hw_read s
   \<and> stray_irq (snd (dma_xilinx_axi_dma_transfer_block k s ch a b f l)) = stray_irq s
   \<and> descriptors_tx_addr (snd (dma_xilinx_axi_dma_transfer_block k s ch a b f l)) = descriptors_tx_addr s
   \<and> descriptors_rx_addr (snd (dma_xilinx_axi_dma_transfer_block k s ch a b f l)) = descriptors_rx_addr s
   \<and> dma_xilinx_axi_dma_data.more (snd (dma_xilinx_axi_dma_transfer_block k s ch a b f l))
       = dma_xilinx_axi_dma_data.more s"
proof -
  obtain key s1 where lk: "dma_xilinx_axi_dma_lock_irq k s ch = (key, s1)"
    by (cases "dma_xilinx_axi_dma_lock_irq k s ch")
  have f: "trace s1 = trace s" "reads_done s1 = reads_done s" "hw_read s1 = hw_read s"
    "stray_irq s1 = stray_irq s" "descriptors_tx_addr s1 = descriptors_tx_addr s"
    "descriptors_rx_addr s1 = descriptors_rx_addr s"
    "dma_xilinx_axi_dma_data.more s1 = dma_xilinx_axi_dma_data.more s"
    using lock_frame[of k s ch] lock_frame_addr[of k s ch] lk by simp_all
  show ?thesis
    unfolding dma_xilinx_axi_dma_transfer_block_def lk
    by (simp add: Let_def f del: channels_update_channel channels_update_descriptor)
qed

text \<open>The whole effect of a submission on a well-formed channel.\<close>

lemma transfer_block_eq:
  assumes "ch < length (channels s)" and "channel_wf (channels s ! ch)"
  shows "dma_xilinx_axi_dma_transfer_block k s ch a b f l
           = (fst (submit_view k ch (channels s ! ch) a b f l),
              s\<lparr>channels := (channels s)[ch := snd (submit_view k ch (channels s ! ch) a b f l)]\<rparr>)"
proof (rule prod_eqI)
  show "fst (dma_xilinx_axi_dma_transfer_block k s ch a b f l)
          = fst (fst (submit_view k ch (channels s ! ch) a b f l),
              s\<lparr>channels := (channels s)[ch := snd (submit_view k ch (channels s ! ch) a b f l)]\<rparr>)"
    by (simp add: transfer_block_view(1)[OF assms])
  show "snd (dma_xilinx_axi_dma_transfer_block k s ch a b f l)
          = snd (fst (submit_view k ch (channels s ! ch) a b f l),
              s\<lparr>channels := (channels s)[ch := snd (submit_view k ch (channels s ! ch) a b f l)]\<rparr>)"
    using transfer_block_frame[of k s ch a b f l] transfer_block_releases[of k s ch a b f l]
    by (intro dma_xilinx_axi_dma_data.equality) (simp_all add: transfer_block_view(2)[OF assms])
qed

lemma chain_flags_drop:
  assumes "c < length xs"
  shows "drop c (chain_flags xs) = (xs ! c, c = 0, c = length xs - 1) # drop (Suc c) (chain_flags xs)"
proof -
  have "c < length (chain_flags xs)" using assms by (simp add: chain_flags_def)
  then have "drop c (chain_flags xs) = chain_flags xs ! c # drop (Suc c) (chain_flags xs)"
    by (rule Cons_nth_drop_Suc[symmetric])
  moreover have "chain_flags xs ! c = (xs ! c, c = 0, c = length xs - 1)"
    using assms by (simp add: chain_flags_def)
  ultimately show ?thesis by simp
qed

lemma configure_blocks_replay:
  assumes "length pre = c"
  shows "snd (configure_blocks k s ch 0 c b bs)
           = snd (replay_chain k s ch (drop c (chain_flags (pre @ b # bs))))
       \<and> fst (configure_blocks k s ch 0 c b bs)
           = (if fst (replay_chain k s ch (drop c (chain_flags (pre @ b # bs)))) = 0 then 0 else 1)"
  using assms
proof (induction bs arbitrary: s pre b c)
  case Nil
  from Nil have c: "c = length pre" by simp
  have d: "drop c (chain_flags (pre @ [b])) = [(b, c = 0, True)]"
    unfolding c by (simp add: chain_flags_drop) (simp add: chain_flags_def)
  show ?case
    unfolding d by (simp add: configure_block_step_def split_def Let_def)
next
  case (Cons b' bs)
  from Cons.prems have c: "c = length pre" by simp
  have d: "drop c (chain_flags (pre @ b # b' # bs))
             = (b, c = 0, False) # drop (Suc c) (chain_flags ((pre @ [b]) @ b' # bs))"
    unfolding c by (simp add: chain_flags_drop)
  let ?t = "dma_xilinx_axi_dma_transfer_block k s ch
              (if ch = XILINX_AXI_DMA_TX_CHANNEL_NUM then source_address b else dest_address b)
              (block_size b) (c = 0) False"
  have l: "length (pre @ [b]) = Suc c" using Cons.prems by simp
  note ih = Cons.IH[OF l, of "snd ?t" b']
  show ?case
    unfolding d using ih
    by (simp add: configure_block_step_def split_def Let_def)
qed


lemma chain_flags_first_last:
  "map (\<lambda>(b, is_first, is_last). is_first) (chain_flags (b # bs)) = True # replicate (length bs) False"
  "map (\<lambda>(b, is_first, is_last). is_last) (chain_flags (b # bs)) = replicate (length bs) False @ [True]"
  by (intro nth_equalityI; auto simp: chain_flags_def nth_Cons' nth_append)+

text \<open>
  C8. For arguments that pass the checks and a valid selector, \<open>configure\<close> ends in the
  state the specification's replay of the chain ends in: one submission per block, in
  order, with \<open>is_first\<close> true for the first block only and \<open>is_last\<close> true for the last
  block only, stopping at the first submission that is refused. It returns 0 when every
  block was accepted and 1, not success, when one was refused (the value of the logical
  or, not the negative error number of the refused submission).
\<close>

theorem configure_block_chain:
  assumes "configure_args_ok cfg ch dma_cfg"
    and "configure_loop_entry k s ch dma_cfg = Some s4"
  shows "snd (dma_xilinx_axi_dma_configure k cfg s ch dma_cfg)
           = snd (replay_chain k s4 ch (chain_flags (head_block dma_cfg # next_blocks dma_cfg)))
    \<and> fst (dma_xilinx_axi_dma_configure k cfg s ch dma_cfg)
           = (if fst (replay_chain k s4 ch (chain_flags (head_block dma_cfg # next_blocks dma_cfg))) = 0
              then 0 else 1)
    \<and> map (\<lambda>(b, is_first, is_last). is_first) (chain_flags (head_block dma_cfg # next_blocks dma_cfg))
           = True # replicate (length (next_blocks dma_cfg)) False
    \<and> map (\<lambda>(b, is_first, is_last). is_last) (chain_flags (head_block dma_cfg # next_blocks dma_cfg))
           = replicate (length (next_blocks dma_cfg)) False @ [True]"
proof -
  have e: "dma_xilinx_axi_dma_configure k cfg s ch dma_cfg
             = configure_blocks k s4 ch 0 0 (head_block dma_cfg) (next_blocks dma_cfg)"
    using assms(2)
    by (auto simp: configure_unfold[OF assms(1)] configure_loop_entry_def split: option.splits)
  show ?thesis
    unfolding e
    using configure_blocks_replay[of "[]" 0 k s4 ch "head_block dma_cfg" "next_blocks dma_cfg"]
    by (simp add: chain_flags_first_last)
qed


lemma example_loop_entry:
  "configure_loop_entry example_kconfig example_data 0 (example_dma_cfg bs)
     = Some (update_channel
               (update_channel
                  (update_channel (configure_ring example_kconfig example_data 0) 0
                     (\<lambda>c. c\<lparr>sg_desc_app0 := XILINX_AXI_DMA_SG_DESCRIPTOR_APP0_CHECKSUM_OFFLOAD_NONE\<rparr>))
                  0 (\<lambda>c. c\<lparr>completion_callback := Some 1\<rparr>))
               0 (\<lambda>c. c\<lparr>completion_callback_user_data := 7\<rparr>))"
  by (simp add: configure_loop_entry_def configure_csum_def example_dma_cfg_def
      XILINX_AXI_DMA_LINKED_CHANNEL_NO_CSUM_OFFLOAD_def
      XILINX_AXI_DMA_LINKED_CHANNEL_FULL_CSUM_OFFLOAD_def)

lemma example_loop_entry_channels:
  "channels (update_channel
               (update_channel
                  (update_channel (configure_ring example_kconfig example_data 0) 0
                     (\<lambda>c. c\<lparr>sg_desc_app0 := XILINX_AXI_DMA_SG_DESCRIPTOR_APP0_CHECKSUM_OFFLOAD_NONE\<rparr>))
                  0 (\<lambda>c. c\<lparr>completion_callback := Some 1\<rparr>))
               0 (\<lambda>c. c\<lparr>completion_callback_user_data := 7\<rparr>))
     = [(example_channel 0x10000000 0x40000000 5 MEMORY_TO_PERIPHERAL)
          \<lparr>descriptors := [zero_descriptor\<lparr>nxtdesc := 0x10000040\<rparr>,
                           zero_descriptor\<lparr>nxtdesc := 0x10000000\<rparr>]\<rparr>,
        example_channel 0x10000080 0x40000030 6 PERIPHERAL_TO_MEMORY]"
proof -
  have a: "0 < length (channels example_data)"
    "num_descriptors (channels example_data ! 0) = length (descriptors (channels example_data ! 0))"
    by (simp_all add: example_data_channels example_channel_def)
  show ?thesis
    by (simp add: configure_ring_channels[OF a])
       (simp add: example_data_def example_channel_def link_descriptor_def Let_def
          example_kconfig_def descriptor_addr_def sizeof_sg_descriptor_def zero_descriptor_def
          XILINX_AXI_DMA_SG_DESCRIPTOR_APP0_CHECKSUM_OFFLOAD_NONE_def upt_rec)
qed


lemma transfer_block_on:
  assumes "channels s = cs" and "ch < length cs" and "channel_wf (cs ! ch)"
  shows "dma_xilinx_axi_dma_transfer_block k s ch a b f l
           = (fst (submit_view k ch (cs ! ch) a b f l),
              s\<lparr>channels := cs[ch := snd (submit_view k ch (cs ! ch) a b f l)]\<rparr>)"
  using transfer_block_eq[of ch s k a b f l] assms by simp

lemma example_chain_runs:
  fixes S :: dma_xilinx_axi_dma_data
  assumes S: "channels S
     = [(example_channel 0x10000000 0x40000000 5 MEMORY_TO_PERIPHERAL)
          \<lparr>descriptors := [zero_descriptor\<lparr>nxtdesc := 0x10000040\<rparr>,
                           zero_descriptor\<lparr>nxtdesc := 0x10000000\<rparr>]\<rparr>,
        example_channel 0x10000080 0x40000030 6 PERIPHERAL_TO_MEMORY]"
  shows "fst (replay_chain example_kconfig S 0
               (chain_flags [example_block 100, example_block 200, example_block 300])) = - EBUSY"
    and "map control (descriptors (channels (snd (replay_chain example_kconfig S 0
               (chain_flags [example_block 100, example_block 200, example_block 300]))) ! 0))
           = [0x08000064, 0xC8]"
    and "fst (replay_chain example_kconfig S 0
               (chain_flags [example_block 100, example_block 200])) = 0"
    and "map control (descriptors (channels (snd (replay_chain example_kconfig S 0
               (chain_flags [example_block 100, example_block 200]))) ! 0))
           = [0x08000064, 0x040000C8]"
proof -
  let ?rx = "example_channel 0x10000080 0x40000030 6 PERIPHERAL_TO_MEMORY"
  let ?c0 = "(example_channel 0x10000000 0x40000000 5 MEMORY_TO_PERIPHERAL)
          \<lparr>descriptors := [zero_descriptor\<lparr>nxtdesc := 0x10000040\<rparr>,
                           zero_descriptor\<lparr>nxtdesc := 0x10000000\<rparr>]\<rparr>"
  let ?c1 = "(example_channel 0x10000000 0x40000000 5 MEMORY_TO_PERIPHERAL)
          \<lparr>descriptors := [zero_descriptor\<lparr>nxtdesc := 0x10000040, buffer_address := 0x2000,
                                           control := 0x08000064\<rparr>,
                           zero_descriptor\<lparr>nxtdesc := 0x10000000\<rparr>],
           populated_desc_index := 0\<rparr>"
  let ?c2 = "\<lambda>w. (example_channel 0x10000000 0x40000000 5 MEMORY_TO_PERIPHERAL)
          \<lparr>descriptors := [zero_descriptor\<lparr>nxtdesc := 0x10000040, buffer_address := 0x2000,
                                           control := 0x08000064\<rparr>,
                           zero_descriptor\<lparr>nxtdesc := 0x10000000, buffer_address := 0x2000,
                                           control := w\<rparr>],
           populated_desc_index := Suc 0\<rparr>"
  note defs = submit_view_def next_index_def rx_misaligned_def submit_buffer_def
    submit_control_def example_channel_def zero_descriptor_def example_kconfig_def
    example_block_def Let_def UINT32_MAX_def XILINX_AXI_DMA_TX_CHANNEL_NUM_def
    XILINX_AXI_DMA_SG_DESCRIPTOR_CTRL_SOF_MASK_def XILINX_AXI_DMA_SG_DESCRIPTOR_CTRL_EOF_MASK_def
    channel_wf_def EBUSY_def
  have t1: "dma_xilinx_axi_dma_transfer_block example_kconfig S 0
              (source_address (example_block 100)) (block_size (example_block 100)) True False
            = (0, S\<lparr>channels := [?c1, ?rx]\<rparr>)"
    by (subst transfer_block_on[OF S]) (simp_all add: defs)
  have t2: "dma_xilinx_axi_dma_transfer_block example_kconfig (S\<lparr>channels := [?c1, ?rx]\<rparr>) 0
              (source_address (example_block 200)) (block_size (example_block 200)) False l
            = (0, S\<lparr>channels := [?c2 (if l then 0x040000C8 else 0xC8), ?rx]\<rparr>)" for l
    by (subst transfer_block_on[where cs = "[?c1, ?rx]"]) (simp_all add: defs)
  have t3: "dma_xilinx_axi_dma_transfer_block example_kconfig (S\<lparr>channels := [?c2 w, ?rx]\<rparr>) 0
              (source_address (example_block 300)) (block_size (example_block 300)) False True
            = (- EBUSY, S\<lparr>channels := [?c2 w, ?rx]\<rparr>)" for w
    by (subst transfer_block_on[where cs = "[?c2 w, ?rx]"]) (simp_all add: defs)
  have f3: "chain_flags [example_block 100, example_block 200, example_block 300]
              = [(example_block 100, True, False), (example_block 200, False, False),
                 (example_block 300, False, True)]"
    and f2: "chain_flags [example_block 100, example_block 200]
              = [(example_block 100, True, False), (example_block 200, False, True)]"
    by (simp_all add: chain_flags_def upt_rec)
  have r3: "replay_chain example_kconfig S 0
               (chain_flags [example_block 100, example_block 200, example_block 300])
            = (- EBUSY, S\<lparr>channels := [?c2 0xC8, ?rx]\<rparr>)"
    unfolding f3
    by (simp add: XILINX_AXI_DMA_TX_CHANNEL_NUM_def t1 t2 t3 EBUSY_def)
  have r2: "replay_chain example_kconfig S 0 (chain_flags [example_block 100, example_block 200])
            = (0, S\<lparr>channels := [?c2 0x040000C8, ?rx]\<rparr>)"
    unfolding f2
    by (simp add: XILINX_AXI_DMA_TX_CHANNEL_NUM_def t1 t2)
  show "fst (replay_chain example_kconfig S 0
               (chain_flags [example_block 100, example_block 200, example_block 300])) = - EBUSY"
    and "map control (descriptors (channels (snd (replay_chain example_kconfig S 0
               (chain_flags [example_block 100, example_block 200, example_block 300]))) ! 0))
           = [0x08000064, 0xC8]"
    and "fst (replay_chain example_kconfig S 0
               (chain_flags [example_block 100, example_block 200])) = 0"
    and "map control (descriptors (channels (snd (replay_chain example_kconfig S 0
               (chain_flags [example_block 100, example_block 200]))) ! 0))
           = [0x08000064, 0x040000C8]"
    unfolding r3 r2 by simp_all
qed


theorem configure_block_chain_witness:
  "fst (dma_xilinx_axi_dma_configure example_kconfig example_config example_data 0
          (example_dma_cfg [example_block 200, example_block 300])) = 1
   \<and> map control (descriptors (channels (snd (dma_xilinx_axi_dma_configure example_kconfig
          example_config example_data 0 (example_dma_cfg [example_block 200, example_block 300]))) ! 0))
       = [0x08000064, 0xC8]
   \<and> fst (dma_xilinx_axi_dma_configure example_kconfig example_config example_data 0
          (example_dma_cfg [example_block 200])) = 0
   \<and> map control (descriptors (channels (snd (dma_xilinx_axi_dma_configure example_kconfig
          example_config example_data 0 (example_dma_cfg [example_block 200]))) ! 0))
       = [0x08000064, 0x040000C8]"
proof -
  have h: "head_block (example_dma_cfg bs) = example_block 100"
    "next_blocks (example_dma_cfg bs) = bs" for bs
    by (simp_all add: example_dma_cfg_def)
  note run = example_chain_runs[OF example_loop_entry_channels]
  note t3 = configure_block_chain[OF example_args_ok example_loop_entry,
              where bs1 = "[example_block 200, example_block 300]"]
  note t2 = configure_block_chain[OF example_args_ok example_loop_entry,
              where bs1 = "[example_block 200]"]
  note s3 = t3[unfolded h, THEN conjunct1] and f3 = t3[unfolded h, THEN conjunct2, THEN conjunct1]
  note s2 = t2[unfolded h, THEN conjunct1] and f2 = t2[unfolded h, THEN conjunct2, THEN conjunct1]
  show ?thesis
    unfolding s3 f3 s2 f2 run by (simp add: EBUSY_def)
qed

subsection \<open>The completion sweep\<close>

text \<open>The slots a sweep visits are distinct as long as it visits no more than the ring
  has.\<close>

lemma mod_add_neq:
  fixes i m n :: nat
  assumes "i < n" "0 < m" "m < n"
  shows "(i + m) mod n \<noteq> i"
proof (cases "i + m < n")
  case True
  then show ?thesis using assms by simp
next
  case False
  then have "(i + m) mod n = i + m - n"
    using assms by (simp add: mod_if)
  then show ?thesis using assms False by simp
qed

lemma mod_add_inj:
  fixes i j k n :: nat
  assumes "i < n" "j < n" "(k + i) mod n = (k + j) mod n"
  shows "i = j"
proof -
  have *: "a = b" if "a \<le> b" "b < n" "(k + a) mod n = (k + b) mod n" for a b :: nat
  proof (rule ccontr)
    assume "a \<noteq> b"
    with that have d: "0 < b - a" "b - a < n" by simp_all
    have "k + b = (k + a) + (b - a)" using that(1) by simp
    then have "(k + b) mod n = ((k + a) mod n + (b - a)) mod n"
      by (simp only: mod_add_left_eq)
    with that(3) have "((k + a) mod n + (b - a)) mod n = (k + a) mod n" by simp
    moreover have "(k + a) mod n < n" using that(2) by simp
    ultimately show False using mod_add_neq[OF _ d] by blast
  qed
  show ?thesis
  proof (cases "i \<le> j")
    case True
    then show ?thesis using * assms by blast
  next
    case False
    then have "j \<le> i" by simp
    then show ?thesis using *[of j i] assms by simp
  qed
qed

lemma sweep_indices_Suc:
  assumes "completion_desc_index c < num_descriptors c"
    and "completion_desc_index c1 = (completion_desc_index c + 1) mod num_descriptors c"
    and "num_descriptors c1 = num_descriptors c"
  shows "sweep_indices c (Suc q) = completion_desc_index c # sweep_indices c1 q"
proof -
  have "[0..<Suc q] = 0 # map Suc [0..<q]"
    by (simp add: upt_conv_Cons map_Suc_upt del: upt_Suc)
  then have "sweep_indices c (Suc q)
      = (completion_desc_index c + 0) mod num_descriptors c
        # map (\<lambda>j. (completion_desc_index c + Suc j) mod num_descriptors c) [0..<q]"
    unfolding sweep_indices_def by (simp add: comp_def del: upt_Suc)
  moreover have "(completion_desc_index c + Suc j) mod num_descriptors c
      = (completion_desc_index c1 + j) mod num_descriptors c1" for j
    unfolding assms(2,3) by (simp add: mod_add_left_eq)
  ultimately show ?thesis
    using assms(1) by (simp add: sweep_indices_def)
qed

lemma sweep_indices_less:
  "0 < num_descriptors c \<Longrightarrow> i \<in> set (sweep_indices c q) \<Longrightarrow> i < num_descriptors c"
  by (auto simp: sweep_indices_def)


lemma not_done_reclaimed [simp]: "\<not> status_done (status (reclaimed d))"
  by (simp add: reclaimed_def status_done_def)

lemma sweep_post_0:
  assumes "channel_wf c"
    and "\<not> status_done (status (descriptors c ! completion_desc_index c))"
  shows "sweep_post c ch tr 0 c tr"
  using assms unfolding channel_wf_def
  by (auto simp: sweep_post_def sweep_indices_def map_nth)

lemma slot_events_cong:
  assumes "completion_callback c1 = completion_callback c"
    and "completion_callback_user_data c1 = completion_callback_user_data c"
    and "direction c1 = direction c" and "check_csum_in_isr c1 = check_csum_in_isr c"
    and "descriptors c1 ! i = descriptors c ! i"
  shows "slot_events c1 ch i = slot_events c ch i"
  using assms by (simp add: slot_events_def split: option.splits)

lemma sweep_post_step:
  assumes wf: "channel_wf c"
    and guard: "status_done (status (descriptors c ! completion_desc_index c))"
    and d1: "descriptors c1 = (descriptors c)[completion_desc_index c
                := reclaimed (descriptors c ! completion_desc_index c)]"
    and comp1: "completion_desc_index c1 = (completion_desc_index c + 1) mod num_descriptors c"
    and n1: "num_descriptors c1 = num_descriptors c"
    and p1: "populated_desc_index c1 = populated_desc_index c"
    and cb1: "completion_callback c1 = completion_callback c"
    and ud1: "completion_callback_user_data c1 = completion_callback_user_data c"
    and dir1: "direction c1 = direction c"
    and cs1: "check_csum_in_isr c1 = check_csum_in_isr c"
    and post: "sweep_post c1 ch (tr @ slot_events c ch (completion_desc_index c)) q c' tr'"
  shows "sweep_post c ch tr (Suc q) c' tr'"
proof -
  let ?n = "num_descriptors c"
  let ?idx = "completion_desc_index c"
  let ?I1 = "sweep_indices c1 q"
  have n: "0 < ?n" "?idx < ?n" "length (descriptors c) = ?n"
    using wf unfolding channel_wf_def by auto
  have I: "sweep_indices c (Suc q) = ?idx # ?I1"
    by (rule sweep_indices_Suc[OF n(2) comp1 n1])
  have at_idx: "descriptors c1 ! ?idx = reclaimed (descriptors c ! ?idx)"
    using n by (simp add: d1)
  have other: "descriptors c1 ! i = descriptors c ! i" if "i \<noteq> ?idx" for i
    using that by (simp add: d1)
  have done1: "status_done (status (descriptors c1 ! i))" if "i \<in> set ?I1" for i
    using post that by (simp add: sweep_post_def list_all_iff)
  have notin: "?idx \<notin> set ?I1"
  proof
    assume "?idx \<in> set ?I1"
    from done1[OF this] show False by (simp add: at_idx)
  qed
  have qn: "q \<le> ?n" using post by (simp add: sweep_post_def n1)
  have q_less: "q < ?n"
  proof (rule ccontr)
    assume "\<not> q < ?n"
    with qn have q: "q = ?n" by simp
    have "(completion_desc_index c1 + (?n - 1)) mod ?n = (?idx + 1 + (?n - 1)) mod ?n"
      unfolding comp1 by (simp only: mod_add_left_eq)
    also have "\<dots> = ?idx" using n by simp
    finally have "?idx \<in> set ?I1"
      using n unfolding sweep_indices_def n1 q
      by (auto simp: image_iff intro!: bexI[where x="?n - 1"])
    with notin show False by simp
  qed
  have neq: "i \<noteq> ?idx" if "i \<in> set ?I1" for i using that notin by auto
  have t_eq: "(completion_desc_index c1 + q) mod ?n = (?idx + Suc q) mod ?n"
    unfolding comp1 by (simp add: mod_add_left_eq)
  show ?thesis
    unfolding sweep_post_def I
  proof (intro conjI)
    show "Suc q \<le> ?n" using q_less by simp
    show "distinct (?idx # ?I1)" using notin post by (simp add: sweep_post_def)
    show "list_all (\<lambda>i. status_done (status (descriptors c ! i))) (?idx # ?I1)"
      using guard done1 other neq by (auto simp: list_all_iff)
    show "Suc q = ?n \<or> \<not> status_done (status (descriptors c ! ((?idx + Suc q) mod ?n)))"
    proof (cases "Suc q = ?n")
      case True
      then show ?thesis by simp
    next
      case False
      with q_less have "Suc q < ?n" by simp
      then have "(?idx + Suc q) mod ?n \<noteq> ?idx"
        using n by (intro mod_add_neq) simp_all
      then have "descriptors c1 ! ((?idx + Suc q) mod ?n) = descriptors c ! ((?idx + Suc q) mod ?n)"
        by (rule other)
      moreover have "\<not> status_done (status (descriptors c1 ! ((completion_desc_index c1 + q) mod ?n)))"
        using post q_less by (auto simp: sweep_post_def n1)
      ultimately show ?thesis unfolding t_eq by simp
    qed
    have me: "map (slot_events c1 ch) ?I1 = map (slot_events c ch) ?I1"
      by (intro map_cong refl slot_events_cong cb1 ud1 dir1 cs1 other neq)
    have "tr' = (tr @ slot_events c ch ?idx) @ concat (map (slot_events c1 ch) ?I1)"
      using post by (simp add: sweep_post_def)
    then show "tr' = tr @ concat (map (slot_events c ch) (?idx # ?I1))"
      unfolding me by simp
    show "completion_desc_index c' = (?idx + Suc q) mod ?n"
      using post by (simp add: sweep_post_def n1 t_eq)
    show "populated_desc_index c' = populated_desc_index c"
      using post by (simp add: sweep_post_def p1)
    show "num_descriptors c' = ?n" using post by (simp add: sweep_post_def n1)
    show "completion_callback c' = completion_callback c"
      using post by (simp add: sweep_post_def cb1)
    have "descriptors c' = map (\<lambda>i. if i \<in> set ?I1 then reclaimed (descriptors c1 ! i)
                     else descriptors c1 ! i) [0..<length (descriptors c1)]"
      using post by (simp add: sweep_post_def)
    also have "\<dots> = map (\<lambda>i. if i \<in> set (?idx # ?I1) then reclaimed (descriptors c ! i)
                     else descriptors c ! i) [0..<length (descriptors c)]"
      using notin neq n by (auto simp: d1 nth_list_update)
    finally show "descriptors c' = map (\<lambda>i. if i \<in> set (?idx # ?I1) then reclaimed (descriptors c ! i)
                     else descriptors c ! i) [0..<length (descriptors c)]" .
  qed
qed

text \<open>One pass through the loop body acts on its channel alone: it records the length,
  clears the descriptor at the completion cursor and moves the cursor to the next slot,
  wrapping at the end of the ring.\<close>

lemma clean_up_iteration_channels:
  assumes "ch < length (channels s)"
  shows "channels (clean_up_iteration s ch)
           = (channels s)[ch := (channels s ! ch)
               \<lparr>last_rx_size := status (descriptors (channels s ! ch)
                                         ! completion_desc_index (channels s ! ch))
                                 AND XILINX_AXI_DMA_SG_DESCRIPTOR_STATUS_LENGTH_MASK,
                descriptors := (descriptors (channels s ! ch))
                  [completion_desc_index (channels s ! ch)
                     := reclaimed (descriptors (channels s ! ch)
                                     ! completion_desc_index (channels s ! ch))],
                completion_desc_index :=
                  (if num_descriptors (channels s ! ch) \<le> completion_desc_index (channels s ! ch) + 1
                   then 0 else completion_desc_index (channels s ! ch) + 1)\<rparr>]"
  using assms
  by (simp add: clean_up_iteration_def Let_def reclaimed_def update_channel_def
      update_descriptor_def split: option.splits)

lemma clean_up_iteration_frame:
  "irqs_enabled (clean_up_iteration s ch) = irqs_enabled s"
  "cpu_irqs_unlocked (clean_up_iteration s ch) = cpu_irqs_unlocked s"
  "length (channels (clean_up_iteration s ch)) = length (channels s)"
  by (simp_all add: clean_up_iteration_def Let_def update_channel_def update_descriptor_def
      split: option.splits)

lemma clean_up_loop_post:
  assumes "ch < length (channels s)" and "channel_wf (channels s ! ch)"
  shows "p \<le> fst (clean_up_loop s ch p)
    \<and> sweep_post (channels s ! ch) ch (trace s) (fst (clean_up_loop s ch p) - p)
         (channels (snd (clean_up_loop s ch p)) ! ch) (trace (snd (clean_up_loop s ch p)))
    \<and> length (channels (snd (clean_up_loop s ch p))) = length (channels s)"
  using assms
proof (induction s ch p rule: clean_up_loop.induct)
  case (1 s ch p)
  let ?c = "channels s ! ch"
  let ?idx = "completion_desc_index ?c"
  have wf: "channel_wf ?c" by fact
  have n: "0 < num_descriptors ?c" "?idx < num_descriptors ?c"
    "length (descriptors ?c) = num_descriptors ?c"
    using wf unfolding channel_wf_def by auto
  show ?case
  proof (cases "status_done (status (descriptors ?c ! ?idx))")
    case False
    then have e: "clean_up_loop s ch p = (p, s)"
      by (subst clean_up_loop.simps) simp
    show ?thesis unfolding e using sweep_post_0[OF wf False] by simp
  next
    case True
    let ?s1 = "clean_up_iteration s ch"
    let ?c1 = "channels ?s1 ! ch"
    have g: "ch < length (channels s) \<and> ?idx < length (descriptors ?c)
              \<and> status_done (status (descriptors ?c ! ?idx))"
      using "1.prems"(1) n True by simp
    then have e: "clean_up_loop s ch p = clean_up_loop ?s1 ch (p + 1)"
      by (subst clean_up_loop.simps) simp
    have c1: "?c1 = ?c\<lparr>last_rx_size := status (descriptors ?c ! ?idx)
                                 AND XILINX_AXI_DMA_SG_DESCRIPTOR_STATUS_LENGTH_MASK,
                descriptors := (descriptors ?c)[?idx := reclaimed (descriptors ?c ! ?idx)],
                completion_desc_index :=
                  (if num_descriptors ?c \<le> ?idx + 1 then 0 else ?idx + 1)\<rparr>"
      using "1.prems"(1) by (simp add: clean_up_iteration_channels)
    have nxt: "(if num_descriptors ?c \<le> ?idx + 1 then 0 else ?idx + 1)
                 = (?idx + 1) mod num_descriptors ?c"
    proof (cases "num_descriptors ?c \<le> ?idx + 1")
      case True
      then have "?idx + 1 = num_descriptors ?c" using n by simp
      then show ?thesis by simp
    next
      case False
      then show ?thesis by simp
    qed
    have l1: "ch < length (channels ?s1)"
      using "1.prems"(1) by (simp add: clean_up_iteration_frame)
    have wf1: "channel_wf ?c1"
      unfolding c1 nxt using wf n unfolding channel_wf_def by auto
    note ih = "1.IH"[OF g l1 wf1]
    have tr1: "trace ?s1 = trace s @ slot_events ?c ch ?idx"
      by (rule clean_up_iteration_trace)
    have post1: "sweep_post ?c1 ch (trace s @ slot_events ?c ch ?idx)
                   (fst (clean_up_loop ?s1 ch (p + 1)) - (p + 1))
                   (channels (snd (clean_up_loop ?s1 ch (p + 1))) ! ch)
                   (trace (snd (clean_up_loop ?s1 ch (p + 1))))"
      using ih unfolding tr1 by simp
    have step: "sweep_post ?c ch (trace s) (Suc (fst (clean_up_loop ?s1 ch (p + 1)) - (p + 1)))
                   (channels (snd (clean_up_loop ?s1 ch (p + 1))) ! ch)
                   (trace (snd (clean_up_loop ?s1 ch (p + 1))))"
      by (rule sweep_post_step[OF wf True _ _ _ _ _ _ _ _ post1])
         (simp_all add: c1[unfolded nxt])
    have le: "p + 1 \<le> fst (clean_up_loop ?s1 ch (p + 1))" using ih by simp
    then have q: "Suc (fst (clean_up_loop ?s1 ch (p + 1)) - (p + 1))
                    = fst (clean_up_loop ?s1 ch (p + 1)) - p" by simp
    show ?thesis
      unfolding e using step le ih unfolding q
      by (simp add: clean_up_iteration_frame)
  qed
qed

text \<open>The other operations of the driver.\<close>

lemma start_channels:
  "channels (snd (dma_xilinx_axi_dma_start k cfg s ch)) = channels s"
  by (simp add: dma_xilinx_axi_dma_start_def Let_def case_prod_beta)

lemma stop_channels:
  "channels (snd (dma_xilinx_axi_dma_stop cfg s ch)) = channels s"
  by (simp add: dma_xilinx_axi_dma_stop_def Let_def case_prod_beta)

lemma get_status_channels:
  "channels (snd (snd (dma_xilinx_axi_dma_get_status cfg s ch st))) = channels s"
  by (simp add: dma_xilinx_axi_dma_get_status_def Let_def case_prod_beta)

lemma submit_rel_keeps:
  assumes "submit_rel c c'"
  shows "completion_desc_index c' = completion_desc_index c \<and> keeps_pending c c'"
  using assms by (simp add: submit_rel_def)

lemma config_reload_keeps:
  assumes "ch < length (channels s)" and "channel_wf (channels s ! ch)"
  shows "completion_desc_index (channels (snd (dma_xilinx_axi_dma_config_reload k cfg s ch src dst sz)) ! ch)
           = completion_desc_index (channels s ! ch)
         \<and> keeps_pending (channels s ! ch)
             (channels (snd (dma_xilinx_axi_dma_config_reload k cfg s ch src dst sz)) ! ch)"
proof (cases "cfg_channels cfg \<le> ch")
  case True
  then show ?thesis by (simp add: dma_xilinx_axi_dma_config_reload_def)
next
  case False
  then have e: "dma_xilinx_axi_dma_config_reload k cfg s ch src dst sz
      = dma_xilinx_axi_dma_transfer_block k s ch
             (if ch = XILINX_AXI_DMA_TX_CHANNEL_NUM then src else dst) sz True True"
    by (simp add: dma_xilinx_axi_dma_config_reload_def)
  show ?thesis unfolding e by (rule submit_rel_keeps[OF transfer_block_rel(2)[OF assms]])
qed

lemma configure_keeps:
  assumes "ch < length (channels s)" and "channel_wf (channels s ! ch)"
  shows "completion_desc_index (channels (snd (dma_xilinx_axi_dma_configure k cfg s ch dma_cfg)) ! ch)
           = (if configure_args_ok cfg ch dma_cfg then 0 else completion_desc_index (channels s ! ch))
         \<and> keeps_pending (channels s ! ch)
             (channels (snd (dma_xilinx_axi_dma_configure k cfg s ch dma_cfg)) ! ch)"
proof (cases "configure_args_ok cfg ch dma_cfg")
  case True
  have n: "num_descriptors (channels s ! ch) = length (descriptors (channels s ! ch))"
    "0 < num_descriptors (channels s ! ch)"
    using assms(2) unfolding channel_wf_def by auto
  show ?thesis using configure_result[OF assms(1) n True, of k] True by simp
next
  case False
  show ?thesis unfolding configure_rejected[OF False] using False by simp
qed

lemma completed_data_tx:
  "length (channels (completed_data cb)) = 2"
  "channels (completed_data cb) ! 0
     = (example_channel 0x10000000 0x40000000 5 MEMORY_TO_PERIPHERAL)
         \<lparr>descriptors := [pending_descriptor\<lparr>status := 0x80000064\<rparr>, zero_descriptor],
          populated_desc_index := 0, completion_callback := cb\<rparr>"
  "trace (completed_data cb) = []"
  by (simp_all add: completed_data_def example_data_def)

lemma completed_status:
  "status_done 0x80000064" "\<not> status_done 0"
  by (simp_all add: status_done_def XILINX_AXI_DMA_SG_DESCRIPTOR_STATUS_TRANSFERRED_MASK_def)

lemma completed_data_swept:
  "channels (clean_up_iteration (completed_data cb) 0) ! 0
     = (example_channel 0x10000000 0x40000000 5 MEMORY_TO_PERIPHERAL)
         \<lparr>descriptors := [pending_descriptor\<lparr>control := 0, status := 0\<rparr>, zero_descriptor],
          populated_desc_index := 0, completion_callback := cb,
          last_rx_size := 0x64, completion_desc_index := Suc 0\<rparr>"
proof -
  have l: "0 < length (channels (completed_data cb))" by (simp add: completed_data_tx)
  show ?thesis
    by (subst clean_up_iteration_channels[OF l])
       (simp add: completed_data_tx example_channel_def reclaimed_def pending_descriptor_def
          XILINX_AXI_DMA_SG_DESCRIPTOR_STATUS_LENGTH_MASK_def)
qed

lemma completed_data_sweep:
  "dma_xilinx_axi_dma_clean_up_sg_descriptors (completed_data cb) 0
     = (1, clean_up_iteration (completed_data cb) 0)"
proof -
  have e1: "clean_up_loop (completed_data cb) 0 0
              = clean_up_loop (clean_up_iteration (completed_data cb) 0) 0 1"
    by (subst clean_up_loop.simps)
       (simp add: completed_data_tx example_channel_def pending_descriptor_def completed_status)
  have e2: "clean_up_loop (clean_up_iteration (completed_data cb) 0) 0 1
              = (1, clean_up_iteration (completed_data cb) 0)"
    by (subst clean_up_loop.simps)
       (simp add: completed_data_swept example_channel_def zero_descriptor_def completed_status)
  show ?thesis
    unfolding dma_xilinx_axi_dma_clean_up_sg_descriptors_def e1 e2 ..
qed

text \<open>
  C6. On a well-formed channel the sweep visits the slots from the completion cursor on,
  as long as their status marks them complete or failed. With a callback registered each
  visited slot leaves exactly one callback invocation in the trace, followed by the
  clearing of that slot's control and status; with none registered (the \<open>if\<close> around the
  call) it leaves the clearing alone. The cursor ends \<open>q\<close> slots further, modulo the
  capacity, for the \<open>q\<close> slots reclaimed. No other operation clears the control or status
  of a descriptor that is not free: \<open>transfer_block\<close> and \<open>config_reload\<close> leave the
  completion cursor where it is, \<open>start\<close>, \<open>stop\<close> and \<open>get_status\<close> leave the channels
  untouched, and \<open>configure\<close>, when it accepts its arguments, sets the completion
  cursor to 0.
\<close>

theorem sweep_delivers_then_clears:
  assumes "ch < length (channels s)" and "channel_wf (channels s ! ch)"
  shows "sweep_post (channels s ! ch) ch (trace s)
           (fst (dma_xilinx_axi_dma_clean_up_sg_descriptors s ch))
           (channels (snd (dma_xilinx_axi_dma_clean_up_sg_descriptors s ch)) ! ch)
           (trace (snd (dma_xilinx_axi_dma_clean_up_sg_descriptors s ch)))
    \<and> (\<forall>cb. completion_callback (channels s ! ch) = Some cb \<longrightarrow>
          trace (snd (dma_xilinx_axi_dma_clean_up_sg_descriptors s ch))
            = trace s @ concat (map
                (\<lambda>i. [EV_CALLBACK cb (completion_callback_user_data (channels s ! ch))
                         (if direction (channels s ! ch) = MEMORY_TO_PERIPHERAL
                          then XILINX_AXI_DMA_TX_CHANNEL_NUM else XILINX_AXI_DMA_RX_CHANNEL_NUM)
                         (descriptor_retval (check_csum_in_isr (channels s ! ch))
                            (status (descriptors (channels s ! ch) ! i))
                            (app2 (descriptors (channels s ! ch) ! i))),
                       EV_DESC_CLEARED ch i])
                (sweep_indices (channels s ! ch)
                   (fst (dma_xilinx_axi_dma_clean_up_sg_descriptors s ch)))))
    \<and> (completion_callback (channels s ! ch) = None \<longrightarrow>
          trace (snd (dma_xilinx_axi_dma_clean_up_sg_descriptors s ch))
            = trace s @ map (EV_DESC_CLEARED ch)
                (sweep_indices (channels s ! ch)
                   (fst (dma_xilinx_axi_dma_clean_up_sg_descriptors s ch))))
    \<and> completion_desc_index
          (channels (snd (dma_xilinx_axi_dma_transfer_block k s ch a b f l)) ! ch)
        = completion_desc_index (channels s ! ch)
    \<and> keeps_pending (channels s ! ch)
          (channels (snd (dma_xilinx_axi_dma_transfer_block k s ch a b f l)) ! ch)
    \<and> completion_desc_index
          (channels (snd (dma_xilinx_axi_dma_config_reload k cfg s ch src dst sz)) ! ch)
        = completion_desc_index (channels s ! ch)
    \<and> keeps_pending (channels s ! ch)
          (channels (snd (dma_xilinx_axi_dma_config_reload k cfg s ch src dst sz)) ! ch)
    \<and> channels (snd (dma_xilinx_axi_dma_start k cfg s ch)) = channels s
    \<and> channels (snd (dma_xilinx_axi_dma_stop cfg s ch)) = channels s
    \<and> channels (snd (snd (dma_xilinx_axi_dma_get_status cfg s ch st))) = channels s
    \<and> completion_desc_index
          (channels (snd (dma_xilinx_axi_dma_configure k cfg s ch dma_cfg)) ! ch)
        = (if configure_args_ok cfg ch dma_cfg then 0
           else completion_desc_index (channels s ! ch))
    \<and> keeps_pending (channels s ! ch)
          (channels (snd (dma_xilinx_axi_dma_configure k cfg s ch dma_cfg)) ! ch)"
proof -
  let ?c = "channels s ! ch"
  let ?r = "dma_xilinx_axi_dma_clean_up_sg_descriptors s ch"
  have r: "?r = clean_up_loop s ch 0"
    by (simp add: dma_xilinx_axi_dma_clean_up_sg_descriptors_def)
  have post: "sweep_post ?c ch (trace s) (fst ?r) (channels (snd ?r) ! ch) (trace (snd ?r))"
    unfolding r using clean_up_loop_post[OF assms, of 0] by simp
  then have tr: "trace (snd ?r)
      = trace s @ concat (map (slot_events ?c ch) (sweep_indices ?c (fst ?r)))"
    by (simp add: sweep_post_def)
  have some: "trace (snd ?r)
            = trace s @ concat (map
                (\<lambda>i. [EV_CALLBACK cb (completion_callback_user_data ?c)
                         (if direction ?c = MEMORY_TO_PERIPHERAL
                          then XILINX_AXI_DMA_TX_CHANNEL_NUM else XILINX_AXI_DMA_RX_CHANNEL_NUM)
                         (descriptor_retval (check_csum_in_isr ?c)
                            (status (descriptors ?c ! i)) (app2 (descriptors ?c ! i))),
                       EV_DESC_CLEARED ch i])
                (sweep_indices ?c (fst ?r)))"
    if "completion_callback ?c = Some cb" for cb
  proof -
    have "slot_events ?c ch
        = (\<lambda>i. [EV_CALLBACK cb (completion_callback_user_data ?c)
                         (if direction ?c = MEMORY_TO_PERIPHERAL
                          then XILINX_AXI_DMA_TX_CHANNEL_NUM else XILINX_AXI_DMA_RX_CHANNEL_NUM)
                         (descriptor_retval (check_csum_in_isr ?c)
                            (status (descriptors ?c ! i)) (app2 (descriptors ?c ! i))),
                       EV_DESC_CLEARED ch i])"
      using that by (intro ext) (simp add: slot_events_def)
    then show ?thesis using tr by simp
  qed
  have none: "trace (snd ?r) = trace s @ map (EV_DESC_CLEARED ch) (sweep_indices ?c (fst ?r))"
    if "completion_callback ?c = None"
  proof -
    have "slot_events ?c ch = (\<lambda>i. [EV_DESC_CLEARED ch i])"
      using that by (intro ext) (simp add: slot_events_def)
    then show ?thesis using tr by (simp add: concat_map_singleton)
  qed
  note tb = submit_rel_keeps[OF transfer_block_rel(2)[OF assms, of k a b f l]]
  note cr = config_reload_keeps[OF assms, of k cfg src dst sz]
  note cf = configure_keeps[OF assms, of k cfg dma_cfg]
  show ?thesis
    apply (intro conjI allI impI)
               apply (rule post)
              apply (erule some)
             apply (erule none)
            apply (rule tb[THEN conjunct1])
           apply (rule tb[THEN conjunct2])
          apply (rule cr[THEN conjunct1])
         apply (rule cr[THEN conjunct2])
        apply (rule start_channels)
       apply (rule stop_channels)
      apply (rule get_status_channels)
     apply (rule cf[THEN conjunct1])
    apply (rule cf[THEN conjunct2])
    done
qed

text \<open>
  C6 as stated does not hold in two places. On a channel with no callback registered the
  sweep reclaims a completed descriptor with no invocation at all; and
  \<open>dma_xilinx_axi_dma_configure\<close> moves the completion cursor, here from 1 to 0 in a ring
  of two, which is where the sweep's next step would have taken it.
\<close>

theorem sweep_without_callback:
  "completion_callback (channels (completed_data None) ! 0) = None
   \<and> status_done (status (descriptors (channels (completed_data None) ! 0) ! 0))
   \<and> fst (dma_xilinx_axi_dma_clean_up_sg_descriptors (completed_data None) 0) = 1
   \<and> trace (snd (dma_xilinx_axi_dma_clean_up_sg_descriptors (completed_data None) 0))
       = [EV_DESC_CLEARED 0 0]
   \<and> control (descriptors (channels (snd (dma_xilinx_axi_dma_clean_up_sg_descriptors
         (completed_data None) 0)) ! 0) ! 0) = 0
   \<and> status (descriptors (channels (snd (dma_xilinx_axi_dma_clean_up_sg_descriptors
         (completed_data None) 0)) ! 0) ! 0) = 0
   \<and> completion_desc_index (channels (snd (dma_xilinx_axi_dma_clean_up_sg_descriptors
         (completed_data None) 0)) ! 0) = 1
   \<and> completion_desc_index (channels (snd (dma_xilinx_axi_dma_configure example_kconfig
         example_config
         (snd (dma_xilinx_axi_dma_clean_up_sg_descriptors (completed_data None) 0))
         0 (example_dma_cfg []))) ! 0) = 0"
proof -
  let ?s1 = "clean_up_iteration (completed_data None) 0"
  have sw: "dma_xilinx_axi_dma_clean_up_sg_descriptors (completed_data None) 0 = (1, ?s1)"
    by (rule completed_data_sweep)
  have a: "completion_callback (channels (completed_data None) ! 0) = None"
    "status_done (status (descriptors (channels (completed_data None) ! 0) ! 0))"
    by (simp_all add: completed_data_tx example_channel_def pending_descriptor_def completed_status)
  have t: "trace ?s1 = [EV_DESC_CLEARED 0 0]"
    by (simp add: clean_up_iteration_trace slot_events_def completed_data_tx example_channel_def)
  have d: "control (descriptors (channels ?s1 ! 0) ! 0) = 0"
    "status (descriptors (channels ?s1 ! 0) ! 0) = 0"
    "completion_desc_index (channels ?s1 ! 0) = 1"
    by (simp_all add: completed_data_swept example_channel_def)
  have pre: "0 < length (channels ?s1)"
    "num_descriptors (channels ?s1 ! 0) = length (descriptors (channels ?s1 ! 0))"
    "0 < num_descriptors (channels ?s1 ! 0)"
    by (simp_all add: clean_up_iteration_frame completed_data_tx completed_data_swept
        example_channel_def)
  have c: "completion_desc_index (channels (snd (dma_xilinx_axi_dma_configure example_kconfig
         example_config ?s1 0 (example_dma_cfg []))) ! 0) = 0"
    using configure_result[OF pre example_args_ok] by simp
  show ?thesis
    unfolding sw fst_conv snd_conv
    by (intro conjI) (rule a t d c refl)+
qed

theorem sweep_delivers_then_clears_witness:
  "0 < length (channels (completed_data (Some 1)))
   \<and> channel_wf (channels (completed_data (Some 1)) ! 0)
   \<and> fst (dma_xilinx_axi_dma_clean_up_sg_descriptors (completed_data (Some 1)) 0) = 1
   \<and> trace (snd (dma_xilinx_axi_dma_clean_up_sg_descriptors (completed_data (Some 1)) 0))
       = [EV_CALLBACK 1 7 0 0, EV_DESC_CLEARED 0 0]
   \<and> completion_desc_index (channels (snd (dma_xilinx_axi_dma_clean_up_sg_descriptors
         (completed_data (Some 1)) 0)) ! 0) = 1
   \<and> completion_desc_index (channels (snd (dma_xilinx_axi_dma_transfer_block example_kconfig
         (completed_data (Some 1)) 0 0x2000 100 True True)) ! 0) = 0
   \<and> completion_desc_index (channels (snd (dma_xilinx_axi_dma_configure example_kconfig
         example_config (completed_data (Some 1)) 0 (example_dma_cfg []))) ! 0) = 0"
proof -
  let ?s = "completed_data (Some 1)"
  let ?c = "channels ?s ! 0"
  have l: "0 < length (channels ?s)" by (simp add: completed_data_tx)
  have wf: "channel_wf ?c"
    by (simp add: completed_data_tx channel_wf_def example_channel_def)
  have q: "fst (dma_xilinx_axi_dma_clean_up_sg_descriptors ?s 0) = 1"
    by (simp add: completed_data_sweep)
  have cb: "completion_callback ?c = Some 1"
    by (simp add: completed_data_tx)
  have ix: "sweep_indices ?c 1 = [0]"
    by (simp add: sweep_indices_def completed_data_tx example_channel_def)
  have rv: "descriptor_retval (check_csum_in_isr (channels (completed_data cb) ! 0))
              (status (descriptors (channels (completed_data cb) ! 0) ! 0))
              (app2 (descriptors (channels (completed_data cb) ! 0) ! 0)) = 0" for cb
    by (simp add: completed_data_tx example_channel_def pending_descriptor_def
        descriptor_retval_def Let_def
        XILINX_AXI_DMA_SG_DESCRIPTOR_STATUS_DEC_ERR_MASK_def
        XILINX_AXI_DMA_SG_DESCRIPTOR_STATUS_SLV_ERR_MASK_def
        XILINX_AXI_DMA_SG_DESCRIPTOR_STATUS_INT_ERR_MASK_def DMA_STATUS_COMPLETE_def)
  have f: "completion_callback_user_data (channels (completed_data cb) ! 0) = 7"
    "direction (channels (completed_data cb) ! 0) = MEMORY_TO_PERIPHERAL"
    "trace (completed_data cb) = []"
    "completion_desc_index (channels (completed_data cb) ! 0) = 0"
    "num_descriptors (channels (completed_data cb) ! 0) = 2" for cb
    by (simp_all add: completed_data_tx example_channel_def)
  note t = sweep_delivers_then_clears[OF l wf, of example_kconfig "0x2000" 100 True True
      example_config 0 0 0 "\<lparr>busy = False, dir = MEMORY_TO_MEMORY\<rparr>" "example_dma_cfg []"]
  have r1: "trace (snd (dma_xilinx_axi_dma_clean_up_sg_descriptors ?s 0))
       = [EV_CALLBACK 1 7 0 0, EV_DESC_CLEARED 0 0]"
    using t[THEN conjunct2, THEN conjunct1, rule_format, OF cb, unfolded q ix]
    by (simp add: rv f XILINX_AXI_DMA_TX_CHANNEL_NUM_def)
  have r2: "completion_desc_index (channels (snd (dma_xilinx_axi_dma_clean_up_sg_descriptors
         ?s 0)) ! 0) = 1"
    using t[THEN conjunct1, unfolded sweep_post_def q] by (simp add: f)
  have r3: "completion_desc_index (channels (snd (dma_xilinx_axi_dma_transfer_block example_kconfig
         ?s 0 0x2000 100 True True)) ! 0) = 0"
    using t by (simp add: f)
  have r4: "completion_desc_index (channels (snd (dma_xilinx_axi_dma_configure example_kconfig
         example_config ?s 0 (example_dma_cfg []))) ! 0) = 0"
    using t example_args_ok[of "[]"] by simp
  show ?thesis
    by (intro conjI) (rule l wf q r1 r2 r3 r4)+
qed

subsection \<open>The two cursors of the ring\<close>

text \<open>Arithmetic of the slots in flight.\<close>

lemma in_flight_empty [simp]: "in_flight n r r = {}"
  by (simp add: in_flight_def)

lemma in_flight_lower: "r < a \<Longrightarrow> r mod n \<in> in_flight n a r"
  by (auto simp: in_flight_def)

lemma in_flight_Suc_subm:
  "r \<le> a \<Longrightarrow> in_flight n (Suc a) r = insert (a mod n) (in_flight n a r)"
  by (simp add: in_flight_def atLeastLessThanSuc)

lemma mod_add_zero:
  fixes d k n :: nat
  assumes "d < n" and "(k + d) mod n = k mod n"
  shows "d = 0"
  using mod_add_inj[of d n 0 k] assms by simp

lemma in_flight_next:
  fixes a r n :: nat
  assumes "r \<le> a" "a < r + n"
  shows "a mod n \<notin> in_flight n a r"
proof
  assume "a mod n \<in> in_flight n a r"
  then obtain k where k: "r \<le> k" "k < a" "k mod n = a mod n"
    by (auto simp: in_flight_def)
  have "a - k < n" using k assms by simp
  moreover have "(k + (a - k)) mod n = k mod n" using k by simp
  ultimately have "a - k = 0" by (rule mod_add_zero)
  then show False using k by simp
qed

lemma in_flight_Suc_recl:
  fixes a r n :: nat
  assumes "a \<le> r + n"
  shows "in_flight n a (Suc r) = in_flight n a r - {r mod n}"
proof (rule set_eqI)
  fix i
  show "i \<in> in_flight n a (Suc r) \<longleftrightarrow> i \<in> in_flight n a r - {r mod n}"
  proof
    assume "i \<in> in_flight n a (Suc r)"
    then obtain k where k: "Suc r \<le> k" "k < a" "k mod n = i"
      by (auto simp: in_flight_def)
    have d: "k - r < n" using k assms by simp
    have "k mod n \<noteq> r mod n"
    proof
      assume e: "k mod n = r mod n"
      have "(r + (k - r)) mod n = r mod n" using k e by simp
      with d have "k - r = 0" by (rule mod_add_zero)
      then show False using k by simp
    qed
    then show "i \<in> in_flight n a r - {r mod n}"
      using k by (auto simp: in_flight_def)
  next
    assume "i \<in> in_flight n a r - {r mod n}"
    then obtain k where k: "r \<le> k" "k < a" "k mod n = i" "i \<noteq> r mod n"
      by (auto simp: in_flight_def)
    then have "k \<noteq> r" by auto
    then have "Suc r \<le> k" using k by simp
    then show "i \<in> in_flight n a (Suc r)"
      using k by (auto simp: in_flight_def)
  qed
qed

lemma in_flight_full:
  fixes i r n :: nat
  assumes "i < n"
  shows "i \<in> in_flight n (r + n) r"
proof -
  let ?m = "(i + n - r mod n) mod n"
  have rn: "r mod n < n" using assms by simp
  have "(r + ?m) mod n = (r mod n + ?m) mod n" by (simp only: mod_add_left_eq)
  also have "\<dots> = (r mod n + (i + n - r mod n)) mod n" by (simp only: mod_add_right_eq)
  also have "r mod n + (i + n - r mod n) = i + n" using rn by simp
  also have "(i + n) mod n = i" using assms by simp
  finally have "(r + ?m) mod n = i" .
  moreover have "r \<le> r + ?m" "r + ?m < r + n" using assms by simp_all
  ultimately show ?thesis
    unfolding in_flight_def by (intro image_eqI[where x = "r + ?m"]) simp_all
qed

lemma cursor_meet:
  fixes a r n :: nat
  assumes "r \<le> a" "a \<le> r + n" "0 < n"
  shows "r mod n = a mod n \<longleftrightarrow> r = a \<or> a = r + n"
proof
  assume e: "r mod n = a mod n"
  show "r = a \<or> a = r + n"
  proof (cases "a = r + n")
    case False
    then have "a - r < n" using assms by simp
    moreover have "(r + (a - r)) mod n = r mod n" using assms e by simp
    ultimately have "a - r = 0" by (rule mod_add_zero)
    then show ?thesis using assms by simp
  qed simp
next
  assume "r = a \<or> a = r + n"
  then show "r mod n = a mod n" by auto
qed

lemma populated_next:
  fixes a n :: nat
  assumes "0 < n"
  shows "((a + n - 1) mod n + 1) mod n = a mod n"
proof -
  have "((a + n - 1) mod n + 1) mod n = ((a + n - 1) + 1) mod n"
    by (simp only: mod_add_left_eq)
  also have "(a + n - 1) + 1 = a + n" using assms by simp
  finally show ?thesis by simp
qed

text \<open>What the counts say about the ring.\<close>

lemma ring_invI:
  assumes "channel_wf c" and "r \<le> a" and "a \<le> r + num_descriptors c"
    and "completion_desc_index c = r mod num_descriptors c"
    and "populated_desc_index c = (a + num_descriptors c - 1) mod num_descriptors c"
    and "\<And>i. i < num_descriptors c \<Longrightarrow> i \<in> in_flight (num_descriptors c) a r
           \<Longrightarrow> control (descriptors c ! i) \<noteq> 0"
    and "\<And>i. i < num_descriptors c \<Longrightarrow> i \<notin> in_flight (num_descriptors c) a r
           \<Longrightarrow> descriptor_free (descriptors c ! i)"
  shows "ring_inv c a r"
  using assms unfolding ring_inv_def by simp

lemma ring_invD:
  assumes "ring_inv c a r"
  shows "channel_wf c" and "r \<le> a" and "a \<le> r + num_descriptors c"
    and "completion_desc_index c = r mod num_descriptors c"
    and "populated_desc_index c = (a + num_descriptors c - 1) mod num_descriptors c"
    and "\<And>i. i < num_descriptors c \<Longrightarrow> i \<in> in_flight (num_descriptors c) a r
           \<Longrightarrow> control (descriptors c ! i) \<noteq> 0"
    and "\<And>i. i < num_descriptors c \<Longrightarrow> i \<notin> in_flight (num_descriptors c) a r
           \<Longrightarrow> descriptor_free (descriptors c ! i)"
    and "0 < num_descriptors c" and "length (descriptors c) = num_descriptors c"
  using assms unfolding ring_inv_def channel_wf_def by auto

lemma ring_inv_busy:
  assumes "ring_inv c a r" and "i < num_descriptors c" and "\<not> descriptor_free (descriptors c ! i)"
  shows "i \<in> in_flight (num_descriptors c) a r"
  using ring_invD(7)[OF assms(1,2)] assms(3) by blast

lemma ring_inv_fresh:
  assumes "ring_fresh c"
  shows "ring_inv c 0 0"
proof (rule ring_invI)
  show "channel_wf c" using assms unfolding ring_fresh_def channel_wf_def by auto
  show "populated_desc_index c = (0 + num_descriptors c - 1) mod num_descriptors c"
    using assms unfolding ring_fresh_def by auto
  show "completion_desc_index c = 0 mod num_descriptors c"
    using assms by (simp add: ring_fresh_def)
  show "descriptor_free (descriptors c ! i)" if "i < num_descriptors c" for i
    using assms that by (simp add: ring_fresh_def ring_drained_def list_all_length)
qed simp_all

lemma ring_inv_drained:
  assumes "ring_inv c a r"
  shows "ring_drained c \<longleftrightarrow> r = a"
proof
  assume d: "ring_drained c"
  show "r = a"
  proof (rule ccontr)
    assume "r \<noteq> a"
    then have "r < a" using ring_invD(2)[OF assms] by simp
    then have m: "r mod num_descriptors c \<in> in_flight (num_descriptors c) a r"
      by (rule in_flight_lower)
    have l: "r mod num_descriptors c < num_descriptors c"
      using ring_invD(8)[OF assms] by simp
    have "control (descriptors c ! (r mod num_descriptors c)) \<noteq> 0"
      by (rule ring_invD(6)[OF assms l m])
    moreover have "descriptor_free (descriptors c ! (r mod num_descriptors c))"
      using d l ring_invD(9)[OF assms] by (simp add: ring_drained_def list_all_length)
    ultimately show False by (simp add: descriptor_free_def)
  qed
next
  assume "r = a"
  then show "ring_drained c"
    using ring_invD(7)[OF assms] ring_invD(9)[OF assms]
    by (simp add: ring_drained_def list_all_length)
qed

lemma ring_inv_full:
  assumes "ring_inv c a r"
  shows "ring_full c \<longleftrightarrow> a = r + num_descriptors c"
proof
  assume f: "ring_full c"
  show "a = r + num_descriptors c"
  proof (rule ccontr)
    assume "a \<noteq> r + num_descriptors c"
    then have lt: "a < r + num_descriptors c" using ring_invD(3)[OF assms] by simp
    have m: "a mod num_descriptors c \<notin> in_flight (num_descriptors c) a r"
      by (rule in_flight_next[OF ring_invD(2)[OF assms] lt])
    have l: "a mod num_descriptors c < num_descriptors c"
      using ring_invD(8)[OF assms] by simp
    have "descriptor_free (descriptors c ! (a mod num_descriptors c))"
      by (rule ring_invD(7)[OF assms l m])
    moreover have "\<not> descriptor_free (descriptors c ! (a mod num_descriptors c))"
      using f l ring_invD(9)[OF assms] by (simp add: ring_full_def list_all_length)
    ultimately show False by simp
  qed
next
  assume e: "a = r + num_descriptors c"
  have "\<not> descriptor_free (descriptors c ! i)" if "i < num_descriptors c" for i
  proof -
    have "i \<in> in_flight (num_descriptors c) a r"
      unfolding e by (rule in_flight_full[OF that])
    from ring_invD(6)[OF assms that this] show ?thesis by (simp add: descriptor_free_def)
  qed
  then show "ring_full c"
    using ring_invD(9)[OF assms] by (simp add: ring_full_def list_all_length)
qed

lemma ring_inv_cursors:
  assumes "ring_inv c a r"
  shows "completion_desc_index c = (populated_desc_index c + 1) mod num_descriptors c
           \<longleftrightarrow> r = a \<or> a = r + num_descriptors c"
proof -
  have "(populated_desc_index c + 1) mod num_descriptors c = a mod num_descriptors c"
    unfolding ring_invD(5)[OF assms] by (rule populated_next[OF ring_invD(8)[OF assms]])
  then show ?thesis
    unfolding ring_invD(4)[OF assms]
    using cursor_meet[OF ring_invD(2)[OF assms] ring_invD(3)[OF assms] ring_invD(8)[OF assms]]
    by simp
qed

text \<open>Every operation keeps the counts and the ring in step: a submission that is
  accepted writes a control word other than zero into the slot after the producer cursor,
  the hardware writes the status of a descriptor it was handed, and each pass of the sweep
  frees the slot at the completion cursor.\<close>

lemma submit_control_nonzero:
  assumes "(of_nat b :: u32) \<noteq> 0 \<or> f \<or> l"
  shows "submit_control b f l \<noteq> 0"
  using assms
  by (auto simp: submit_control_def Let_def or_eq_0_iff
      XILINX_AXI_DMA_SG_DESCRIPTOR_CTRL_SOF_MASK_def
      XILINX_AXI_DMA_SG_DESCRIPTOR_CTRL_EOF_MASK_def)

lemma submit_buffer_fields [simp]:
  "control (submit_buffer k c a d) = control d"
  "status (submit_buffer k c a d) = status d"
  by (simp_all add: submit_buffer_def)

lemma ring_inv_same:
  assumes inv: "ring_inv c a r"
    and "num_descriptors c' = num_descriptors c"
    and "length (descriptors c') = length (descriptors c)"
    and "populated_desc_index c' = populated_desc_index c"
    and "completion_desc_index c' = completion_desc_index c"
    and "\<And>i. i < num_descriptors c \<Longrightarrow> control (descriptors c' ! i) = control (descriptors c ! i)"
    and "\<And>i. i < num_descriptors c \<Longrightarrow> i \<notin> in_flight (num_descriptors c) a r
           \<Longrightarrow> status (descriptors c' ! i) = status (descriptors c ! i)"
  shows "ring_inv c' a r"
proof (rule ring_invI)
  show "channel_wf c'"
    using ring_invD(1)[OF inv] assms(2-5) unfolding channel_wf_def by auto
  show "r \<le> a" by (rule ring_invD(2)[OF inv])
  show "a \<le> r + num_descriptors c'" using ring_invD(3)[OF inv] assms(2) by simp
  show "completion_desc_index c' = r mod num_descriptors c'"
    using ring_invD(4)[OF inv] assms(2,5) by simp
  show "populated_desc_index c' = (a + num_descriptors c' - 1) mod num_descriptors c'"
    using ring_invD(5)[OF inv] assms(2,4) by simp
  show "control (descriptors c' ! i) \<noteq> 0"
    if "i < num_descriptors c'" "i \<in> in_flight (num_descriptors c') a r" for i
    using ring_invD(6)[OF inv, of i] that assms(2) assms(6)[of i] by simp
  show "descriptor_free (descriptors c' ! i)"
    if "i < num_descriptors c'" "i \<notin> in_flight (num_descriptors c') a r" for i
    using ring_invD(7)[OF inv, of i] that assms(2) assms(6)[of i] assms(7)[of i]
    by (simp add: descriptor_free_def)
qed

lemma ring_inv_hw:
  assumes inv: "ring_inv c a r" and i: "i < length (descriptors c)"
    and busy: "\<not> descriptor_free (descriptors c ! i)"
  shows "ring_inv (c\<lparr>descriptors := (descriptors c)[i := (descriptors c ! i)\<lparr>status := st\<rparr>]\<rparr>) a r"
proof (rule ring_inv_same[OF inv])
  have n: "length (descriptors c) = num_descriptors c" by (rule ring_invD(9)[OF inv])
  have fl: "i \<in> in_flight (num_descriptors c) a r"
    using ring_inv_busy[OF inv _ busy] i n by simp
  show "control (descriptors (c\<lparr>descriptors := (descriptors c)[i := (descriptors c ! i)\<lparr>status := st\<rparr>]\<rparr>) ! j)
          = control (descriptors c ! j)" if "j < num_descriptors c" for j
    using that n by (cases "j = i") simp_all
  show "status (descriptors (c\<lparr>descriptors := (descriptors c)[i := (descriptors c ! i)\<lparr>status := st\<rparr>]\<rparr>) ! j)
          = status (descriptors c ! j)"
    if "j < num_descriptors c" "j \<notin> in_flight (num_descriptors c) a r" for j
  proof -
    have "j \<noteq> i" using that fl by auto
    then show ?thesis by simp
  qed
qed simp_all

lemma status_done_nonzero: "status_done st \<Longrightarrow> st \<noteq> 0"
  by (auto simp: status_done_def)

lemma ring_inv_iteration:
  assumes inv: "ring_inv c a r"
    and dn: "status_done (status (descriptors c ! completion_desc_index c))"
  shows "ring_inv
           (c\<lparr>last_rx_size := x,
              descriptors := (descriptors c)[completion_desc_index c
                := reclaimed (descriptors c ! completion_desc_index c)],
              completion_desc_index :=
                (if num_descriptors c \<le> completion_desc_index c + 1 then 0
                 else completion_desc_index c + 1)\<rparr>) a (Suc r)"
    (is "ring_inv ?c' a (Suc r)")
proof -
  let ?n = "num_descriptors c"
  let ?idx = "completion_desc_index c"
  note wf = ring_invD(1)[OF inv]
  have n: "0 < ?n" "length (descriptors c) = ?n" "?idx < ?n" "populated_desc_index c < ?n"
    using wf unfolding channel_wf_def by auto
  have idx: "?idx = r mod ?n" by (rule ring_invD(4)[OF inv])
  have "\<not> descriptor_free (descriptors c ! ?idx)"
    using status_done_nonzero[OF dn] by (simp add: descriptor_free_def)
  then have fl: "?idx \<in> in_flight ?n a r" by (rule ring_inv_busy[OF inv n(3)])
  have lt: "r < a"
  proof (rule ccontr)
    assume "\<not> r < a"
    then have "r = a" using ring_invD(2)[OF inv] by simp
    then show False using fl by simp
  qed
  have nxt: "(if ?n \<le> ?idx + 1 then 0 else ?idx + 1) = Suc r mod ?n"
  proof (cases "?n \<le> ?idx + 1")
    case True
    then have "?idx + 1 = ?n" using n by simp
    then have "(r mod ?n + 1) mod ?n = 0" unfolding idx by simp
    then have "Suc r mod ?n = 0" by (simp add: mod_Suc_eq)
    then show ?thesis using True by simp
  next
    case False
    then have "(r mod ?n + 1) mod ?n = ?idx + 1" unfolding idx by simp
    then have "Suc r mod ?n = ?idx + 1" by (simp add: mod_Suc_eq)
    then show ?thesis using False by simp
  qed
  have fl': "in_flight ?n a (Suc r) = in_flight ?n a r - {?idx}"
    unfolding idx by (rule in_flight_Suc_recl[OF ring_invD(3)[OF inv]])
  show ?thesis
  proof (rule ring_invI)
    show "channel_wf ?c'"
      using n unfolding channel_wf_def by auto
    show "Suc r \<le> a" using lt by simp
    show "a \<le> Suc r + num_descriptors ?c'" using ring_invD(3)[OF inv] by simp
    show "completion_desc_index ?c' = Suc r mod num_descriptors ?c'"
      using nxt by simp
    show "populated_desc_index ?c' = (a + num_descriptors ?c' - 1) mod num_descriptors ?c'"
      using ring_invD(5)[OF inv] by simp
    show "control (descriptors ?c' ! i) \<noteq> 0"
      if "i < num_descriptors ?c'" "i \<in> in_flight (num_descriptors ?c') a (Suc r)" for i
    proof -
      have "i \<in> in_flight ?n a r" "i \<noteq> ?idx" using that(2) fl' by simp_all
      then show ?thesis using ring_invD(6)[OF inv, of i] that(1) by simp
    qed
    show "descriptor_free (descriptors ?c' ! i)"
      if "i < num_descriptors ?c'" "i \<notin> in_flight (num_descriptors ?c') a (Suc r)" for i
    proof (cases "i = ?idx")
      case True
      then show ?thesis using n by (simp add: descriptor_free_def reclaimed_def)
    next
      case False
      then have "i \<notin> in_flight ?n a r" using that(2) fl' by simp
      then show ?thesis using ring_invD(7)[OF inv, of i] that(1) False by simp
    qed
  qed
qed

lemma ring_inv_submit:
  assumes inv: "ring_inv c a r" and nz: "(of_nat b :: u32) \<noteq> 0 \<or> f \<or> l"
  shows "ring_inv (snd (submit_view k ch c buf b f l))
           (if fst (submit_view k ch c buf b f l) = 0 then Suc a else a) r"
proof -
  let ?n = "num_descriptors c"
  let ?nx = "next_index c"
  let ?d = "descriptors c ! ?nx"
  note wf = ring_invD(1)[OF inv]
  have n: "0 < ?n" "length (descriptors c) = ?n" "completion_desc_index c < ?n"
    using wf unfolding channel_wf_def by auto
  have nx: "?nx = a mod ?n"
    unfolding next_index_mod[OF wf] ring_invD(5)[OF inv] by (rule populated_next[OF n(1)])
  have nxl: "?nx < ?n" unfolding nx using n by simp
  consider (busy) "control ?d \<noteq> 0 \<or> status ?d \<noteq> 0"
    | (misaligned) "control ?d = 0" "status ?d = 0" "rx_misaligned k ch buf b"
    | (large) "control ?d = 0" "status ?d = 0" "\<not> rx_misaligned k ch buf b" "UINT32_MAX < b"
    | (ok) "control ?d = 0" "status ?d = 0" "\<not> rx_misaligned k ch buf b" "\<not> UINT32_MAX < b"
    by blast
  then show ?thesis
  proof cases
    case busy
    then have "submit_view k ch c buf b f l = (- EBUSY, c)"
      by (auto simp: submit_view_def Let_def)
    then show ?thesis using inv by (simp add: EBUSY_def)
  next
    case misaligned
    then have "submit_view k ch c buf b f l = (- EINVAL, c)"
      by (simp add: submit_view_def Let_def)
    then show ?thesis using inv by (simp add: EINVAL_def)
  next
    case large
    then have e: "submit_view k ch c buf b f l
        = (- EINVAL, c\<lparr>descriptors := (descriptors c)[?nx := submit_buffer k c buf ?d]\<rparr>)"
      by (simp add: submit_view_def Let_def)
    have "ring_inv (c\<lparr>descriptors := (descriptors c)[?nx := submit_buffer k c buf ?d]\<rparr>) a r"
    proof (rule ring_inv_same[OF inv])
      show "control (descriptors (c\<lparr>descriptors := (descriptors c)[?nx := submit_buffer k c buf ?d]\<rparr>) ! i)
              = control (descriptors c ! i)" if "i < ?n" for i
        using that n by (cases "i = ?nx") simp_all
      show "status (descriptors (c\<lparr>descriptors := (descriptors c)[?nx := submit_buffer k c buf ?d]\<rparr>) ! i)
              = status (descriptors c ! i)" if "i < ?n" for i
        using that n by (cases "i = ?nx") simp_all
    qed simp_all
    then show ?thesis unfolding e by (simp add: EINVAL_def)
  next
    case ok
    let ?c' = "c\<lparr>descriptors := (descriptors c)
                       [?nx := (submit_buffer k c buf ?d)
                                \<lparr>control := submit_control b f l\<rparr>],
                    populated_desc_index := ?nx\<rparr>"
    have e: "submit_view k ch c buf b f l = (0, ?c')"
      using ok by (simp add: submit_view_def Let_def)
    have nfl: "?nx \<notin> in_flight ?n a r"
      using ring_invD(6)[OF inv nxl] ok(1) by blast
    have lt: "a < r + ?n"
    proof (rule ccontr)
      assume "\<not> a < r + ?n"
      then have "a = r + ?n" using ring_invD(3)[OF inv] by simp
      then show False using nfl in_flight_full[OF nxl, of r] by simp
    qed
    have fl': "in_flight ?n (Suc a) r = insert ?nx (in_flight ?n a r)"
      unfolding nx by (rule in_flight_Suc_subm[OF ring_invD(2)[OF inv]])
    have "ring_inv ?c' (Suc a) r"
    proof (rule ring_invI)
      show "channel_wf ?c'" using n nxl unfolding channel_wf_def by auto
      show "r \<le> Suc a" using ring_invD(2)[OF inv] by simp
      show "Suc a \<le> r + num_descriptors ?c'" using lt by simp
      show "completion_desc_index ?c' = r mod num_descriptors ?c'"
        using ring_invD(4)[OF inv] by simp
      have "(Suc a + ?n - 1) mod ?n = a mod ?n" by simp
      then show "populated_desc_index ?c' = (Suc a + num_descriptors ?c' - 1) mod num_descriptors ?c'"
        using nx by simp
      show "control (descriptors ?c' ! i) \<noteq> 0"
        if "i < num_descriptors ?c'" "i \<in> in_flight (num_descriptors ?c') (Suc a) r" for i
      proof (cases "i = ?nx")
        case True
        then show ?thesis using n nxl submit_control_nonzero[OF nz] by simp
      next
        case False
        then have "i \<in> in_flight ?n a r" using that(2) fl' by simp
        then show ?thesis using ring_invD(6)[OF inv, of i] that(1) False by simp
      qed
      show "descriptor_free (descriptors ?c' ! i)"
        if "i < num_descriptors ?c'" "i \<notin> in_flight (num_descriptors ?c') (Suc a) r" for i
      proof -
        have "i \<noteq> ?nx" "i \<notin> in_flight ?n a r" using that(2) fl' by simp_all
        then show ?thesis using ring_invD(7)[OF inv, of i] that(1) by simp
      qed
    qed
    then show ?thesis unfolding e by simp
  qed
qed

lemma clean_up_loop_inv:
  assumes "ch < length (channels s)" and "ring_inv (channels s ! ch) a r"
  shows "p \<le> fst (clean_up_loop s ch p)
    \<and> ch < length (channels (snd (clean_up_loop s ch p)))
    \<and> ring_inv (channels (snd (clean_up_loop s ch p)) ! ch) a
         (r + (fst (clean_up_loop s ch p) - p))"
  using assms
proof (induction s ch p arbitrary: r rule: clean_up_loop.induct)
  case (1 s ch p)
  let ?c = "channels s ! ch"
  let ?idx = "completion_desc_index ?c"
  note inv = "1.prems"(2)
  have n: "?idx < length (descriptors ?c)"
    using ring_invD(1)[OF inv] unfolding channel_wf_def by auto
  show ?case
  proof (cases "status_done (status (descriptors ?c ! ?idx))")
    case False
    then have e: "clean_up_loop s ch p = (p, s)"
      by (subst clean_up_loop.simps) simp
    show ?thesis unfolding e using "1.prems" by simp
  next
    case True
    let ?s1 = "clean_up_iteration s ch"
    have g: "ch < length (channels s) \<and> ?idx < length (descriptors ?c)
              \<and> status_done (status (descriptors ?c ! ?idx))"
      using "1.prems"(1) n True by simp
    then have e: "clean_up_loop s ch p = clean_up_loop ?s1 ch (p + 1)"
      by (subst clean_up_loop.simps) simp
    have l1: "ch < length (channels ?s1)"
      using "1.prems"(1) by (simp add: clean_up_iteration_frame)
    have inv1: "ring_inv (channels ?s1 ! ch) a (Suc r)"
      using "1.prems"(1) ring_inv_iteration[OF inv True]
      by (simp add: clean_up_iteration_channels)
    note ih = "1.IH"[OF g l1 inv1]
    have le: "p + 1 \<le> fst (clean_up_loop ?s1 ch (p + 1))" using ih by simp
    then have eq: "Suc r + (fst (clean_up_loop ?s1 ch (p + 1)) - (p + 1))
            = r + (fst (clean_up_loop ?s1 ch (p + 1)) - p)"
      by arith
    have i3: "ring_inv (channels (snd (clean_up_loop ?s1 ch (p + 1))) ! ch) a
                (r + (fst (clean_up_loop ?s1 ch (p + 1)) - p))"
      using ih unfolding eq by blast
    show ?thesis
      unfolding e
    proof (intro conjI)
      show "p \<le> fst (clean_up_loop ?s1 ch (p + 1))" using le by simp
      show "ch < length (channels (snd (clean_up_loop ?s1 ch (p + 1))))" using ih by blast
      show "ring_inv (channels (snd (clean_up_loop ?s1 ch (p + 1))) ! ch) a
                (r + (fst (clean_up_loop ?s1 ch (p + 1)) - p))" by (rule i3)
    qed
  qed
qed

lemma ring_step_inv:
  assumes l: "ch < length (channels s)" and inv: "ring_inv (channels s ! ch) a r"
    and nz: "submit_nonzero op"
  shows "ch < length (channels (fst (ring_step k ch (s, a, r) op)))
    \<and> ring_inv (channels (fst (ring_step k ch (s, a, r) op)) ! ch)
         (fst (snd (ring_step k ch (s, a, r) op))) (snd (snd (ring_step k ch (s, a, r) op)))"
proof (cases op)
  case (OP_SUBMIT buf b f l')
  note wf = ring_invD(1)[OF inv]
  have nz': "(of_nat b :: u32) \<noteq> 0 \<or> f \<or> l'" using nz OP_SUBMIT by simp
  note v = transfer_block_view[OF l wf, of k buf b f l']
  show ?thesis
    using ring_inv_submit[OF inv nz', of k ch buf] l
    by (cases "fst (submit_view k ch (channels s ! ch) buf b f l') = 0")
       (simp_all add: OP_SUBMIT case_prod_beta v)
next
  case OP_SWEEP
  show ?thesis
    using clean_up_loop_inv[OF l inv, of 0]
    by (simp add: OP_SWEEP case_prod_beta dma_xilinx_axi_dma_clean_up_sg_descriptors_def)
next
  case (HW_STATUS i st)
  show ?thesis
  proof (cases "i < length (descriptors (channels s ! ch))
                  \<and> \<not> descriptor_free (descriptors (channels s ! ch) ! i)")
    case True
    then show ?thesis
      using ring_inv_hw[OF inv, of i st] l
      by (simp add: HW_STATUS hw_write_status_def)
  next
    case False
    then show ?thesis using l inv by (auto simp: HW_STATUS hw_write_status_def)
  qed
qed

lemma run_inv:
  assumes "ch < length (channels s)" and "ring_inv (channels s ! ch) a r"
    and "list_all submit_nonzero ops"
  shows "ch < length (channels (fst (foldl (ring_step k ch) (s, a, r) ops)))
    \<and> ring_inv (channels (fst (foldl (ring_step k ch) (s, a, r) ops)) ! ch)
         (fst (snd (foldl (ring_step k ch) (s, a, r) ops)))
         (snd (snd (foldl (ring_step k ch) (s, a, r) ops)))"
  using assms
proof (induction ops arbitrary: s a r)
  case Nil
  then show ?case by simp
next
  case (Cons op ops)
  obtain s1 a1 r1 where st: "ring_step k ch (s, a, r) op = (s1, a1, r1)"
    by (cases "ring_step k ch (s, a, r) op") auto
  have nz: "submit_nonzero op" "list_all submit_nonzero ops" using Cons.prems(3) by simp_all
  have "ch < length (channels s1) \<and> ring_inv (channels s1 ! ch) a1 r1"
    using ring_step_inv[OF Cons.prems(1,2) nz(1), of k] st by simp
  then show ?case
    using Cons.IH[of s1 a1 r1] nz(2) st by simp
qed

lemma example_submissions:
  "dma_xilinx_axi_dma_transfer_block example_kconfig example_data 0 0x2000 100 True True
     = (0, submitted_data)"
  "dma_xilinx_axi_dma_transfer_block example_kconfig submitted_data 0 0x2000 100 True True
     = (0, full_data)"
  "dma_xilinx_axi_dma_transfer_block example_kconfig example_data 0 0x2000 0 False False
     = (0, zero_length_data)"
proof -
  note defs = submit_view_def next_index_def rx_misaligned_def submit_buffer_def
    submit_control_def example_channel_def zero_descriptor_def example_kconfig_def
    pending_descriptor_def Let_def UINT32_MAX_def XILINX_AXI_DMA_TX_CHANNEL_NUM_def
    XILINX_AXI_DMA_SG_DESCRIPTOR_CTRL_SOF_MASK_def XILINX_AXI_DMA_SG_DESCRIPTOR_CTRL_EOF_MASK_def
    channel_wf_def update_channel_def
  have c: "channels example_data
             = [example_channel 0x10000000 0x40000000 5 MEMORY_TO_PERIPHERAL,
                example_channel 0x10000080 0x40000030 6 PERIPHERAL_TO_MEMORY]"
    by (simp add: example_data_def)
  have c1: "channels submitted_data
             = [(example_channel 0x10000000 0x40000000 5 MEMORY_TO_PERIPHERAL)
                  \<lparr>descriptors := [pending_descriptor, zero_descriptor],
                   populated_desc_index := 0\<rparr>,
                example_channel 0x10000080 0x40000030 6 PERIPHERAL_TO_MEMORY]"
    by (simp add: submitted_data_def example_data_def)
  show "dma_xilinx_axi_dma_transfer_block example_kconfig example_data 0 0x2000 100 True True
     = (0, submitted_data)"
    by (subst transfer_block_on[OF c])
       (simp_all add: defs submitted_data_def, simp add: example_data_def defs)
  show "dma_xilinx_axi_dma_transfer_block example_kconfig submitted_data 0 0x2000 100 True True
     = (0, full_data)"
    by (subst transfer_block_on[OF c1])
       (simp_all add: defs full_data_def submitted_data_def, simp add: example_data_def defs)
  show "dma_xilinx_axi_dma_transfer_block example_kconfig example_data 0 0x2000 0 False False
     = (0, zero_length_data)"
    by (subst transfer_block_on[OF c])
       (simp_all add: defs zero_length_data_def, simp add: example_data_def defs)
qed

lemma example_hw_completes:
  "hw_write_status submitted_data 0 0 0x80000064 = completed_data (Some 1)"
  by (simp add: hw_write_status_def submitted_data_def completed_data_def update_descriptor_def
      update_channel_def example_data_def example_channel_def descriptor_free_def
      pending_descriptor_def zero_descriptor_def)

lemma example_fresh:
  "0 < length (channels example_data)"
  "ring_fresh (channels example_data ! 0)"
  by (simp_all add: example_data_channels ring_fresh_def ring_drained_def example_channel_def
      descriptor_free_def zero_descriptor_def)

lemma example_runs:
  "run_ops example_kconfig 0 example_data
     [OP_SUBMIT 0x2000 100 True True, HW_STATUS 0 0x80000064, OP_SWEEP]
     = (clean_up_iteration (completed_data (Some 1)) 0, 1, 1)"
  "run_ops example_kconfig 0 example_data
     [OP_SUBMIT 0x2000 100 True True, OP_SUBMIT 0x2000 100 True True]
     = (full_data, 2, 0)"
  "run_ops example_kconfig 0 example_data [OP_SUBMIT 0x2000 0 False False]
     = (zero_length_data, 1, 0)"
  by (simp_all add: run_ops_def example_submissions example_hw_completes completed_data_sweep)

text \<open>
  C1. Take a ring as \<open>dma_xilinx_axi_dma_configure\<close> leaves it over zeroed descriptors,
  and any sequence of submissions, completion sweeps and status writes by the hardware, in
  which every submission has a length other than zero or a frame flag. The sweeps never
  reclaim more descriptors than were accepted, and never fall more than the capacity
  behind; the completion cursor is the number reclaimed modulo the capacity and the
  producer cursor is one behind the number accepted; the consumer has caught up with the
  producer exactly when the ring is fully drained; and the completion cursor is one past
  the producer cursor, modulo the capacity, exactly when the ring is fully drained or
  every slot of it is in use.
\<close>

theorem ring_cursors:
  assumes "ch < length (channels s)" and "ring_fresh (channels s ! ch)"
    and "list_all submit_nonzero ops"
  shows "(case run_ops k ch s ops of (s', accepted, swept) \<Rightarrow>
           swept \<le> accepted
           \<and> accepted \<le> swept + num_descriptors (channels s' ! ch)
           \<and> completion_desc_index (channels s' ! ch)
               = swept mod num_descriptors (channels s' ! ch)
           \<and> populated_desc_index (channels s' ! ch)
               = (accepted + num_descriptors (channels s' ! ch) - 1)
                   mod num_descriptors (channels s' ! ch)
           \<and> (ring_drained (channels s' ! ch) \<longleftrightarrow> swept = accepted)
           \<and> (ring_full (channels s' ! ch)
                \<longleftrightarrow> accepted = swept + num_descriptors (channels s' ! ch))
           \<and> (completion_desc_index (channels s' ! ch)
                = (populated_desc_index (channels s' ! ch) + 1)
                    mod num_descriptors (channels s' ! ch)
                \<longleftrightarrow> ring_drained (channels s' ! ch) \<or> ring_full (channels s' ! ch)))"
proof -
  obtain s' a r where run: "run_ops k ch s ops = (s', a, r)"
    by (cases "run_ops k ch s ops") auto
  have inv: "ring_inv (channels s' ! ch) a r"
    using run_inv[OF assms(1) ring_inv_fresh[OF assms(2)] assms(3), of k] run
    by (simp add: run_ops_def)
  show ?thesis
    unfolding run prod.case
    unfolding ring_inv_drained[OF inv] ring_inv_full[OF inv] ring_inv_cursors[OF inv]
    using ring_invD(2-5)[OF inv] by simp
qed

text \<open>
  C1 takes the completion cursor to be one past the producer cursor exactly when the ring
  is fully drained. After two submissions into a ring of two, with no sweep, the cursors
  are in that position and no slot is free. And a submission of no bytes with no frame
  flag is accepted and moves the producer cursor, while the control word it writes is
  zero: the ring is fully drained and the cursors are not in that position.
\<close>

theorem ring_cursors_meet_otherwise:
  "ring_fresh (channels example_data ! 0)
   \<and> run_ops example_kconfig 0 example_data
        [OP_SUBMIT 0x2000 100 True True, OP_SUBMIT 0x2000 100 True True] = (full_data, 2, 0)
   \<and> completion_desc_index (channels full_data ! 0)
        = (populated_desc_index (channels full_data ! 0) + 1)
            mod num_descriptors (channels full_data ! 0)
   \<and> \<not> ring_drained (channels full_data ! 0)
   \<and> run_ops example_kconfig 0 example_data [OP_SUBMIT 0x2000 0 False False]
        = (zero_length_data, 1, 0)
   \<and> ring_drained (channels zero_length_data ! 0)
   \<and> completion_desc_index (channels zero_length_data ! 0)
        \<noteq> (populated_desc_index (channels zero_length_data ! 0) + 1)
            mod num_descriptors (channels zero_length_data ! 0)"
proof -
  have f: "completion_desc_index (channels full_data ! 0)
        = (populated_desc_index (channels full_data ! 0) + 1)
            mod num_descriptors (channels full_data ! 0)"
    "\<not> ring_drained (channels full_data ! 0)"
    by (simp_all add: full_data_tx example_channel_def ring_drained_def descriptor_free_def
        pending_descriptor_def)
  have z: "ring_drained (channels zero_length_data ! 0)"
    "completion_desc_index (channels zero_length_data ! 0)
        \<noteq> (populated_desc_index (channels zero_length_data ! 0) + 1)
            mod num_descriptors (channels zero_length_data ! 0)"
    by (simp_all add: zero_length_data_def example_data_def example_channel_def ring_drained_def
        descriptor_free_def zero_descriptor_def)
  show ?thesis
    by (intro conjI) (rule example_fresh example_runs f z)+
qed

theorem ring_cursors_witness:
  "0 < length (channels example_data)
   \<and> ring_fresh (channels example_data ! 0)
   \<and> list_all submit_nonzero [OP_SUBMIT 0x2000 100 True True, HW_STATUS 0 0x80000064, OP_SWEEP]
   \<and> snd (run_ops example_kconfig 0 example_data
        [OP_SUBMIT 0x2000 100 True True, HW_STATUS 0 0x80000064, OP_SWEEP]) = (1, 1)
   \<and> ring_drained (channels (fst (run_ops example_kconfig 0 example_data
        [OP_SUBMIT 0x2000 100 True True, HW_STATUS 0 0x80000064, OP_SWEEP])) ! 0)
   \<and> completion_desc_index (channels (fst (run_ops example_kconfig 0 example_data
        [OP_SUBMIT 0x2000 100 True True, HW_STATUS 0 0x80000064, OP_SWEEP])) ! 0) = 1
   \<and> populated_desc_index (channels (fst (run_ops example_kconfig 0 example_data
        [OP_SUBMIT 0x2000 100 True True, HW_STATUS 0 0x80000064, OP_SWEEP])) ! 0) = 0"
proof -
  let ?ops = "[OP_SUBMIT 0x2000 100 True True, HW_STATUS 0 0x80000064, OP_SWEEP]"
  let ?s = "clean_up_iteration (completed_data (Some 1)) 0"
  have nz: "list_all submit_nonzero ?ops" by simp
  have n: "num_descriptors (channels (clean_up_iteration (completed_data cb) 0) ! 0) = 2" for cb
    by (simp add: completed_data_swept example_channel_def)
  note t = ring_cursors[OF example_fresh nz, of example_kconfig, unfolded example_runs(1) prod.case n]
  have r: "snd (run_ops example_kconfig 0 example_data ?ops) = (1, 1)"
    "fst (run_ops example_kconfig 0 example_data ?ops) = ?s"
    by (simp_all add: example_runs)
  have d: "ring_drained (channels ?s ! 0)"
    "completion_desc_index (channels ?s ! 0) = 1"
    "populated_desc_index (channels ?s ! 0) = 0"
    using t by simp_all
  show ?thesis
    unfolding r by (intro conjI) (rule example_fresh nz refl d)+
qed

subsection \<open>Checksum inspection\<close>

lemma concat_pairs:
  assumes "\<And>x. length (f x) = 2" and "j < length xs"
  shows "take 2 (drop (2 * j) (concat (map f xs))) = f (xs ! j)"
  using assms(2)
proof (induction xs arbitrary: j)
  case Nil
  then show ?case by simp
next
  case (Cons x xs)
  show ?case
  proof (cases j)
    case 0
    then show ?thesis using assms(1)[of x] by simp
  next
    case (Suc j')
    then have "j' < length xs" using Cons.prems by simp
    from Cons.IH[OF this] show ?thesis using Suc assms(1)[of x] by simp
  qed
qed

lemma sweep_post_reaches:
  assumes post: "sweep_post c ch tr q c' tr'"
    and j: "j < num_descriptors c"
    and dn: "\<forall>m \<le> j. status_done (status (descriptors c
                ! ((completion_desc_index c + m) mod num_descriptors c)))"
  shows "j < q"
proof (rule ccontr)
  assume "\<not> j < q"
  then have le: "q \<le> j" by simp
  then have "q \<noteq> num_descriptors c" using j by simp
  then have "\<not> status_done (status (descriptors c
                ! ((completion_desc_index c + q) mod num_descriptors c)))"
    using post by (simp add: sweep_post_def)
  then show False using dn le by blast
qed

lemma csum_data_rx:
  "length (channels (csum_data v)) = 2"
  "channels (csum_data v) ! Suc 0
     = (example_channel 0x10000080 0x40000030 6 PERIPHERAL_TO_MEMORY)
         \<lparr>descriptors := [pending_descriptor\<lparr>status := 0x80000064, app2 := v\<rparr>, zero_descriptor],
          populated_desc_index := 0, check_csum_in_isr := True\<rparr>"
  "trace (csum_data v) = []"
  by (simp_all add: csum_data_def example_data_def)

lemma csum_data_swept:
  "channels (clean_up_iteration (csum_data v) (Suc 0)) ! Suc 0
     = (example_channel 0x10000080 0x40000030 6 PERIPHERAL_TO_MEMORY)
         \<lparr>descriptors := [pending_descriptor\<lparr>control := 0, status := 0, app2 := v\<rparr>,
                          zero_descriptor],
          populated_desc_index := 0, check_csum_in_isr := True,
          last_rx_size := 0x64, completion_desc_index := Suc 0\<rparr>"
proof -
  have l: "Suc 0 < length (channels (csum_data v))" by (simp add: csum_data_rx)
  show ?thesis
    by (subst clean_up_iteration_channels[OF l])
       (simp add: csum_data_rx example_channel_def reclaimed_def pending_descriptor_def
          XILINX_AXI_DMA_SG_DESCRIPTOR_STATUS_LENGTH_MASK_def)
qed

lemma csum_data_sweep:
  "dma_xilinx_axi_dma_clean_up_sg_descriptors (csum_data v) 1
     = (1, clean_up_iteration (csum_data v) 1)"
proof -
  have e1: "clean_up_loop (csum_data v) 1 0
              = clean_up_loop (clean_up_iteration (csum_data v) 1) 1 1"
    by (subst clean_up_loop.simps)
       (simp add: csum_data_rx example_channel_def pending_descriptor_def completed_status)
  have e2: "clean_up_loop (clean_up_iteration (csum_data v) 1) 1 1
              = (1, clean_up_iteration (csum_data v) 1)"
    by (subst clean_up_loop.simps)
       (simp add: csum_data_swept example_channel_def zero_descriptor_def completed_status)
  show ?thesis
    unfolding dma_xilinx_axi_dma_clean_up_sg_descriptors_def e1 e2 ..
qed

text \<open>
  C7. Take a well-formed channel that inspects checksums and has a callback registered,
  and let the descriptors from the completion cursor up to the one \<open>j\<close> slots further
  all have a status that marks them complete or failed. If the APP2 word of that
  descriptor is \<open>0x38\<close> (every bit of the TCP mask) or \<open>0x30\<close> (the bits of the UDP mask
  only), then \<open>dma_xilinx_axi_dma_clean_up_sg_descriptors\<close> reclaims it: it returns more
  than \<open>j\<close>, its events for that descriptor are the callback with \<open>-EFAULT\<close> followed by
  the clearing, and the descriptor's control and status are zero afterwards. For \<open>0x38\<close>
  the TCP test matches. For \<open>0x30\<close> the UDP test matches and the TCP test, which needs
  all of \<open>0x38\<close>, does not, nor do the IP and FCS tests. The example after the theorem
  adds that the same descriptor with APP2 zero is reported as complete.
\<close>

theorem checksum_masking:
  assumes l: "ch < length (channels s)" and wf: "channel_wf (channels s ! ch)"
    and cs: "check_csum_in_isr (channels s ! ch)"
    and cb: "completion_callback (channels s ! ch) = Some cb"
    and j: "j < num_descriptors (channels s ! ch)"
    and dn: "\<forall>m \<le> j. status_done (status (descriptors (channels s ! ch)
                ! ((completion_desc_index (channels s ! ch) + m)
                     mod num_descriptors (channels s ! ch))))"
    and a: "app2 (descriptors (channels s ! ch)
                    ! ((completion_desc_index (channels s ! ch) + j)
                         mod num_descriptors (channels s ! ch))) = 0x38
          \<or> app2 (descriptors (channels s ! ch)
                    ! ((completion_desc_index (channels s ! ch) + j)
                         mod num_descriptors (channels s ! ch))) = 0x30"
  shows "j < fst (dma_xilinx_axi_dma_clean_up_sg_descriptors s ch)
    \<and> take 2 (drop (length (trace s) + 2 * j)
                (trace (snd (dma_xilinx_axi_dma_clean_up_sg_descriptors s ch))))
        = [EV_CALLBACK cb (completion_callback_user_data (channels s ! ch))
             (if direction (channels s ! ch) = MEMORY_TO_PERIPHERAL
              then XILINX_AXI_DMA_TX_CHANNEL_NUM else XILINX_AXI_DMA_RX_CHANNEL_NUM)
             (- EFAULT),
           EV_DESC_CLEARED ch ((completion_desc_index (channels s ! ch) + j)
                                 mod num_descriptors (channels s ! ch))]
    \<and> control (descriptors (channels (snd (dma_xilinx_axi_dma_clean_up_sg_descriptors s ch)) ! ch)
          ! ((completion_desc_index (channels s ! ch) + j)
               mod num_descriptors (channels s ! ch))) = 0
    \<and> status (descriptors (channels (snd (dma_xilinx_axi_dma_clean_up_sg_descriptors s ch)) ! ch)
          ! ((completion_desc_index (channels s ! ch) + j)
               mod num_descriptors (channels s ! ch))) = 0
    \<and> csum_tcp_err 0x38 \<and> csum_udp_err 0x30 \<and> \<not> csum_tcp_err 0x30
    \<and> \<not> csum_ip_err 0x30 \<and> \<not> csum_fcs_err 0x30"
proof -
  let ?c = "channels s ! ch"
  let ?n = "num_descriptors ?c"
  let ?i = "(completion_desc_index ?c + j) mod ?n"
  let ?r = "dma_xilinx_axi_dma_clean_up_sg_descriptors s ch"
  let ?q = "fst ?r"
  let ?c' = "channels (snd ?r) ! ch"
  have r: "?r = clean_up_loop s ch 0"
    by (simp add: dma_xilinx_axi_dma_clean_up_sg_descriptors_def)
  have post: "sweep_post ?c ch (trace s) ?q ?c' (trace (snd ?r))"
    unfolding r using clean_up_loop_post[OF l wf, of 0] by simp
  have n: "0 < ?n" "length (descriptors ?c) = ?n"
    using wf unfolding channel_wf_def by auto
  have jq: "j < ?q" by (rule sweep_post_reaches[OF post j dn])
  have len: "length (sweep_indices ?c ?q) = ?q" by (simp add: sweep_indices_def)
  have nth: "sweep_indices ?c ?q ! j = ?i"
    using jq by (simp add: sweep_indices_def)
  have mem: "?i \<in> set (sweep_indices ?c ?q)"
    using nth_mem[of j "sweep_indices ?c ?q"] jq len nth by simp
  have il: "?i < length (descriptors ?c)" using n by simp
  have ev: "slot_events ?c ch ?i
      = [EV_CALLBACK cb (completion_callback_user_data ?c)
             (if direction ?c = MEMORY_TO_PERIPHERAL
              then XILINX_AXI_DMA_TX_CHANNEL_NUM else XILINX_AXI_DMA_RX_CHANNEL_NUM)
             (- EFAULT),
           EV_DESC_CLEARED ch ?i]"
    using a cs cb by (auto simp: slot_events_def descriptor_retval_csum)
  have l2: "length (slot_events ?c ch x) = 2" for x
    using cb by (simp add: slot_events_def)
  have tr: "trace (snd ?r) = trace s @ concat (map (slot_events ?c ch) (sweep_indices ?c ?q))"
    using post by (simp add: sweep_post_def)
  have "take 2 (drop (length (trace s) + 2 * j) (trace (snd ?r)))
          = take 2 (drop (2 * j) (concat (map (slot_events ?c ch) (sweep_indices ?c ?q))))"
    unfolding tr by simp
  also have "\<dots> = slot_events ?c ch (sweep_indices ?c ?q ! j)"
    by (rule concat_pairs[OF l2]) (simp add: len jq)
  finally have t: "take 2 (drop (length (trace s) + 2 * j) (trace (snd ?r)))
      = [EV_CALLBACK cb (completion_callback_user_data ?c)
             (if direction ?c = MEMORY_TO_PERIPHERAL
              then XILINX_AXI_DMA_TX_CHANNEL_NUM else XILINX_AXI_DMA_RX_CHANNEL_NUM)
             (- EFAULT),
           EV_DESC_CLEARED ch ?i]"
    unfolding nth ev .
  have ds: "descriptors ?c'
          = map (\<lambda>i. if i \<in> set (sweep_indices ?c ?q) then reclaimed (descriptors ?c ! i)
                     else descriptors ?c ! i)
              [0..<length (descriptors ?c)]"
    using post by (simp add: sweep_post_def)
  have d: "descriptors ?c' ! ?i = reclaimed (descriptors ?c ! ?i)"
    unfolding ds using il mem by simp
  have z: "control (descriptors ?c' ! ?i) = 0" "status (descriptors ?c' ! ?i) = 0"
    unfolding d by (simp_all add: reclaimed_def)
  show ?thesis
    by (intro conjI) (rule jq t z csum_patterns)+
qed

theorem checksum_masking_witness:
  "1 < length (channels (csum_data 0x38))
   \<and> channel_wf (channels (csum_data 0x38) ! 1)
   \<and> status_done (status (descriptors (channels (csum_data 0x38) ! 1) ! 0))
   \<and> dma_xilinx_axi_dma_clean_up_sg_descriptors (csum_data 0x38) 1
       = (1, clean_up_iteration (csum_data 0x38) 1)
   \<and> trace (snd (dma_xilinx_axi_dma_clean_up_sg_descriptors (csum_data 0x38) 1))
       = [EV_CALLBACK 1 7 1 (- EFAULT), EV_DESC_CLEARED 1 0]
   \<and> trace (snd (dma_xilinx_axi_dma_clean_up_sg_descriptors (csum_data 0x30) 1))
       = [EV_CALLBACK 1 7 1 (- EFAULT), EV_DESC_CLEARED 1 0]
   \<and> trace (snd (dma_xilinx_axi_dma_clean_up_sg_descriptors (csum_data 0) 1))
       = [EV_CALLBACK 1 7 1 0, EV_DESC_CLEARED 1 0]
   \<and> status (descriptors (channels (snd (dma_xilinx_axi_dma_clean_up_sg_descriptors
         (csum_data 0x38) 1)) ! 1) ! 0) = 0"
proof -
  let ?sw = "\<lambda>v. dma_xilinx_axi_dma_clean_up_sg_descriptors (csum_data v) 1"
  have h: "1 < length (channels (csum_data v))"
    "channel_wf (channels (csum_data v) ! 1)"
    "check_csum_in_isr (channels (csum_data v) ! 1)"
    "completion_callback (channels (csum_data v) ! 1) = Some 1"
    "0 < num_descriptors (channels (csum_data v) ! 1)" for v
    by (simp_all add: csum_data_rx example_channel_def channel_wf_def)
  have f: "completion_desc_index (channels (csum_data v) ! Suc 0) = 0"
    "num_descriptors (channels (csum_data v) ! Suc 0) = 2"
    "completion_callback_user_data (channels (csum_data v) ! Suc 0) = 7"
    "direction (channels (csum_data v) ! Suc 0) = PERIPHERAL_TO_MEMORY"
    "completion_callback (channels (csum_data v) ! Suc 0) = Some 1"
    "trace (csum_data v) = []" for v
    by (simp_all add: csum_data_rx example_channel_def)
  have sd: "status_done (status (descriptors (channels (csum_data v) ! 1) ! 0))" for v
    by (simp add: csum_data_rx example_channel_def pending_descriptor_def completed_status)
  have dn: "\<forall>m \<le> 0. status_done (status (descriptors (channels (csum_data v) ! 1)
                ! ((completion_desc_index (channels (csum_data v) ! 1) + m)
                     mod num_descriptors (channels (csum_data v) ! 1))))" for v
    using sd[of v] by (simp add: f)
  have a: "app2 (descriptors (channels (csum_data v) ! 1)
                    ! ((completion_desc_index (channels (csum_data v) ! 1) + 0)
                         mod num_descriptors (channels (csum_data v) ! 1))) = v" for v
    by (simp add: csum_data_rx example_channel_def pending_descriptor_def)
  have len: "length (trace (snd (?sw v))) = 2" for v
    unfolding csum_data_sweep snd_conv
    by (simp add: clean_up_iteration_trace slot_events_def f)
  note t1 = checksum_masking[OF h(1) h(2) h(3) h(4) h(5) dn disjI1[OF a[of "0x38"]]]
  note t2 = checksum_masking[OF h(1) h(2) h(3) h(4) h(5) dn disjI2[OF a[of "0x30"]]]
  have w1: "trace (snd (?sw 0x38)) = [EV_CALLBACK 1 7 1 (- EFAULT), EV_DESC_CLEARED 1 0]"
    using t1[THEN conjunct2, THEN conjunct1] len[of "0x38"]
    by (simp add: f XILINX_AXI_DMA_RX_CHANNEL_NUM_def)
  have w2: "trace (snd (?sw 0x30)) = [EV_CALLBACK 1 7 1 (- EFAULT), EV_DESC_CLEARED 1 0]"
    using t2[THEN conjunct2, THEN conjunct1] len[of "0x30"]
    by (simp add: f XILINX_AXI_DMA_RX_CHANNEL_NUM_def)
  have w3: "trace (snd (?sw 0)) = [EV_CALLBACK 1 7 1 0, EV_DESC_CLEARED 1 0]"
    unfolding csum_data_sweep snd_conv
    by (simp add: clean_up_iteration_trace slot_events_def csum_data_rx
        example_channel_def
        pending_descriptor_def zero_descriptor_def descriptor_retval_def Let_def
        csum_tcp_err_def csum_udp_err_def csum_ip_err_def csum_fcs_err_def
        XILINX_AXI_DMA_SG_DESCRIPTOR_APP2_TCP_ERR_MASK_def
        XILINX_AXI_DMA_SG_DESCRIPTOR_APP2_UDP_ERR_MASK_def
        XILINX_AXI_DMA_SG_DESCRIPTOR_APP2_IP_ERR_MASK_def
        XILINX_AXI_DMA_SG_DESCRIPTOR_APP2_FCS_ERR_MASK_def
        XILINX_AXI_DMA_SG_DESCRIPTOR_STATUS_DEC_ERR_MASK_def
        XILINX_AXI_DMA_SG_DESCRIPTOR_STATUS_SLV_ERR_MASK_def
        XILINX_AXI_DMA_SG_DESCRIPTOR_STATUS_INT_ERR_MASK_def
        DMA_STATUS_COMPLETE_def XILINX_AXI_DMA_RX_CHANNEL_NUM_def)
  have w4: "status (descriptors (channels (snd (?sw 0x38)) ! 1) ! 0) = 0"
    using t1[THEN conjunct2, THEN conjunct2, THEN conjunct2, THEN conjunct1]
    by (simp add: f)
  show ?thesis
    by (intro conjI) (rule h sd csum_data_sweep w1 w2 w3 w4)+
qed

end
